theory Spec2Isabelle
  imports Main
begin

section \<open>The IR consumed by the two passes\<close>

text \<open>
  The statement and expression trees of the low-level IR, restricted to the node kinds that
  \<^verbatim>\<open>inject_virtual_thread.cc\<close> and \<^verbatim>\<open>bounds_checker.cc\<close> name. A \<^verbatim>\<open>DataType\<close> carries its
  type code, bit width and lane count. A variable is compared by node identity in the
  source: the field \<open>node_id\<close> stands for the address of the node, so two variables
  may carry the same name hint and type and still differ. The null handle \<^verbatim>\<open>Expr()\<close> is the constructor
  \<open>Undefined\<close>. Buffer variables of \<open>Load\<close>, \<open>Store\<close> and \<open>Allocate\<close> are
  always defined handles.
\<close>

datatype type_code = kInt | kUInt | kFloat | kHandle

datatype dtype = DataType (type_code: type_code) (bits: nat) (lanes: int)

datatype var = Var (name_hint: string) (var_dtype: dtype) (node_id: nat)

datatype call_type = Extern | PureExtern | Intrinsic | PureIntrinsic

datatype expr =
    Undefined
  | Variable var
  | IntImm dtype int
  | StringImm string
  | Cast dtype expr
  | Add expr expr
  | Mul expr expr
  | Div expr expr
  | GE expr expr
  | LT expr expr
  | And expr expr
  | Ramp expr expr int
  | Load dtype var expr expr
  | Call dtype string "expr list" call_type

datatype for_type = Serial | Parallel | Vectorized | Unrolled

datatype device_api = DeviceNone | DeviceHost

text \<open>The \<open>node\<close> field of an attribute: a variable, an iteration variable with its
  thread tag, or some other object.\<close>

datatype node_ref = NodeVariable var | NodeIterVar var string | NodeOther

datatype stmt =
    LetStmt var expr stmt
  | AttrStmt node_ref string expr stmt
  | AssertStmt expr expr stmt
  | Store var expr expr expr
  | Allocate var dtype "expr list" expr stmt expr string
  | For var expr expr for_type device_api stmt
  | IfThenElse expr stmt "stmt option"
  | Block stmt stmt
  | Evaluate expr

datatype error = CheckFailed | NullDeref

subsection \<open>Helpers of the IR library\<close>

definition defined :: "expr \<Rightarrow> bool" where
  "defined e = (e \<noteq> Undefined)"

definition is_scalar :: "dtype \<Rightarrow> bool" where
  "is_scalar t = (lanes t = 1)"

definition DT_Int :: "nat \<Rightarrow> dtype" where
  "DT_Int b = DataType kInt b 1"

definition DT_UInt :: "nat \<Rightarrow> dtype" where
  "DT_UInt b = DataType kUInt b 1"

definition DT_Handle :: dtype where
  "DT_Handle = DataType kHandle 64 1"

text \<open>
  Every IR node stores its type; the model recomputes it the way the node constructors
  set it. Reading the type of the null handle dereferences a null pointer: \<open>None\<close>.
\<close>

fun dtype_of :: "expr \<Rightarrow> dtype option" where
  "dtype_of Undefined = None"
| "dtype_of (Variable v) = Some (var_dtype v)"
| "dtype_of (IntImm t n) = Some t"
| "dtype_of (StringImm s) = Some DT_Handle"
| "dtype_of (Cast t e) = Some t"
| "dtype_of (Add a b) = dtype_of a"
| "dtype_of (Mul a b) = dtype_of a"
| "dtype_of (Div a b) = dtype_of a"
| "dtype_of (GE a b) = map_option (\<lambda>t. DataType kUInt 1 (lanes t)) (dtype_of a)"
| "dtype_of (LT a b) = map_option (\<lambda>t. DataType kUInt 1 (lanes t)) (dtype_of a)"
| "dtype_of (And a b) = map_option (\<lambda>t. DataType kUInt 1 (lanes t)) (dtype_of a)"
| "dtype_of (Ramp base stride n) =
     map_option (\<lambda>t. DataType (type_code t) (bits t) n) (dtype_of base)"
| "dtype_of (Load t b i p) = Some t"
| "dtype_of (Call t name args ct) = Some t"

text \<open>Modelled from the spec: the helpers \<^verbatim>\<open>make_const(dtype, n)\<close>, \<^verbatim>\<open>make_zero(dtype)\<close>,
  \<^verbatim>\<open>is_zero(expr)\<close> and \<^verbatim>\<open>is_negative_const(expr)\<close> of the IR library (their code is not
  part of the two files), on integer literals.\<close>

definition make_const :: "dtype \<Rightarrow> int \<Rightarrow> expr" where
  "make_const t n = IntImm t n"

definition make_zero :: "dtype \<Rightarrow> expr" where
  "make_zero t = make_const t 0"

fun is_zero :: "expr \<Rightarrow> bool" where
  "is_zero (IntImm t n) = (n = 0)"
| "is_zero _ = False"

fun is_negative_const :: "expr \<Rightarrow> bool" where
  "is_negative_const (IntImm t n) = (n < 0)"
| "is_negative_const _ = False"

fun is_intrinsic :: "expr \<Rightarrow> string \<Rightarrow> bool" where
  "is_intrinsic (Call t name args ct) s =
     ((ct = Intrinsic \<or> ct = PureIntrinsic) \<and> name = s)"
| "is_intrinsic _ s = False"

definition tvm_access_ptr :: string where
  "tvm_access_ptr = ''tvm_access_ptr''"

definition tvm_context_id :: string where
  "tvm_context_id = ''tvm_context_id''"

definition tvm_if_then_else :: string where
  "tvm_if_then_else = ''tvm_if_then_else''"

definition attr_virtual_thread :: string where
  "attr_virtual_thread = ''virtual_thread''"

definition attr_coproc_scope :: string where
  "attr_coproc_scope = ''coproc_scope''"

definition attr_coproc_uop_scope :: string where
  "attr_coproc_uop_scope = ''coproc_uop_scope''"

definition attr_buffer_bound :: string where
  "attr_buffer_bound = ''buffer_bound''"

section \<open>Bounds checker: the shape table\<close>

text \<open>
  \<^verbatim>\<open>BoundChecker::Update\<close>. The first loop is the sanity check: it returns early (no
  update) on an undefined first extent, a non-scalar extent or a negative constant. It
  tests \<^verbatim>\<open>new_shape[0].defined()\<close> in every round and then reads
  \<^verbatim>\<open>new_shape[i].dtype()\<close>, which dereferences a null handle when extent \<open>i\<close> is undefined.
  \<open>Inr True\<close> means that every extent passed.
\<close>

fun Update_sanity :: "expr \<Rightarrow> expr list \<Rightarrow> error + bool" where
  "Update_sanity e0 [] = Inr True"
| "Update_sanity e0 (e # es) =
     (if \<not> defined e0 then Inr False
      else (case dtype_of e of
              None \<Rightarrow> Inl NullDeref
            | Some t \<Rightarrow>
                if \<not> is_scalar t \<or> is_negative_const e then Inr False
                else Update_sanity e0 es))"

text \<open>The second loop of \<^verbatim>\<open>Update\<close>: scalarise the shape, one factor per further extent.\<close>

fun Update_scalarize :: "int \<Rightarrow> expr \<Rightarrow> expr list \<Rightarrow> expr" where
  "Update_scalarize l shape [] = shape"
| "Update_scalarize l shape (e # es) =
     Update_scalarize l
       (Mul shape (Mul (make_const (DT_UInt 64) l) (Cast (DT_UInt 64) e))) es"

definition Update ::
  "(var \<rightharpoonup> expr) \<Rightarrow> var \<Rightarrow> expr list \<Rightarrow> dtype \<Rightarrow> error + (var \<rightharpoonup> expr)" where
  "Update m buffer_var new_shape type =
     (case new_shape of
        [] \<Rightarrow> Inr m
      | e0 # rest \<Rightarrow>
          (case Update_sanity e0 new_shape of
             Inl err \<Rightarrow> Inl err
           | Inr ok \<Rightarrow>
               if \<not> ok then Inr m
               else Inr (m(buffer_var \<mapsto>
                      Update_scalarize (lanes type)
                        (Mul (make_const (DT_UInt 64) (lanes type)) (Cast (DT_UInt 64) e0))
                        rest))))"

definition UpdateIsNeeded :: "(var \<rightharpoonup> expr) \<Rightarrow> var \<Rightarrow> bool" where
  "UpdateIsNeeded m buffer_var = (buffer_var \<in> dom m)"

section \<open>Bounds checker: the instrumenting mutator\<close>

text \<open>The mutable fields of \<^verbatim>\<open>BoundChecker\<close>.\<close>

record bc_state =
  process_store :: bool
  unsafe_rewritten :: bool
  store_scope_bound_collector :: "(expr \<times> expr) list"
  mem_to_shape :: "var \<rightharpoonup> expr"

definition error_message :: string where
  "error_message = ''OUT OF THE BOUNDS''"

definition dtype_is_scalar :: "expr \<Rightarrow> bool" where
  "dtype_is_scalar e = (case dtype_of e of None \<Rightarrow> False | Some t \<Rightarrow> is_scalar t)"

fun IndexIsValid :: "expr \<Rightarrow> bool" where
  "IndexIsValid Undefined = False"
| "IndexIsValid (Ramp base stride n) =
     (defined base \<and> dtype_is_scalar base \<and> defined stride \<and> dtype_is_scalar stride \<and> n > 0)"
| "IndexIsValid _ = True"

definition CanInstrument :: "bc_state \<Rightarrow> expr \<Rightarrow> var \<Rightarrow> bool" where
  "CanInstrument st index buffer_var =
     (buffer_var \<in> dom (mem_to_shape st) \<and> IndexIsValid index \<and> \<not> unsafe_rewritten st)"

text \<open>\<open>Collect_bound\<close> is \<^verbatim>\<open>BoundChecker::Collect\<close>. It reads the table with \<^verbatim>\<open>operator[]\<close>, which would insert a null shape for
  an absent key; it is only called for keys that are present.\<close>

definition Collect_bound :: "expr \<Rightarrow> var \<Rightarrow> bc_state \<Rightarrow> bc_state" where
  "Collect_bound index buffer_var st =
     (case mem_to_shape st buffer_var of
        Some shape \<Rightarrow>
          st\<lparr>store_scope_bound_collector := store_scope_bound_collector st @ [(index, shape)]\<rparr>
      | None \<Rightarrow>
          st\<lparr>store_scope_bound_collector := store_scope_bound_collector st @ [(index, Undefined)],
             mem_to_shape := (mem_to_shape st)(buffer_var \<mapsto> Undefined)\<rparr>)"

text \<open>
  Modelled from the spec: the node constructors \<^verbatim>\<open>Cast::make\<close>, \<^verbatim>\<open>Add::make\<close>,
  \<^verbatim>\<open>Mul::make\<close>, \<^verbatim>\<open>GE::make\<close>, \<^verbatim>\<open>LT::make\<close>, \<^verbatim>\<open>And::make\<close> and \<^verbatim>\<open>Store::make\<close> of
  the IR library (their code is not part of the two files). The spec names the nodes
  they build and is silent on their checks; the model gives them the checks that the
  library makes before it builds the node: the operands are defined, a cast keeps the
  lane count, the operands of a binary node have the same type, the operands of \<open>And\<close>
  are boolean, and the value, the index and the predicate of a store have the same lane
  count. A failed \<^verbatim>\<open>CHECK\<close> is \<open>Inl CheckFailed\<close>.
\<close>

definition Cast_make :: "dtype \<Rightarrow> expr \<Rightarrow> error + expr" where
  "Cast_make t v =
     (case dtype_of v of
        None \<Rightarrow> Inl CheckFailed
      | Some tv \<Rightarrow> if lanes t = lanes tv then Inr (Cast t v) else Inl CheckFailed)"

definition binary_make :: "(expr \<Rightarrow> expr \<Rightarrow> expr) \<Rightarrow> expr \<Rightarrow> expr \<Rightarrow> error + expr" where
  "binary_make node a b =
     (case dtype_of a of
        None \<Rightarrow> Inl CheckFailed
      | Some ta \<Rightarrow>
          (case dtype_of b of
             None \<Rightarrow> Inl CheckFailed
           | Some tb \<Rightarrow> if ta = tb then Inr (node a b) else Inl CheckFailed))"

definition Add_make :: "expr \<Rightarrow> expr \<Rightarrow> error + expr" where
  "Add_make = binary_make Add"

definition Mul_make :: "expr \<Rightarrow> expr \<Rightarrow> error + expr" where
  "Mul_make = binary_make Mul"

definition GE_make :: "expr \<Rightarrow> expr \<Rightarrow> error + expr" where
  "GE_make = binary_make GE"

definition LT_make :: "expr \<Rightarrow> expr \<Rightarrow> error + expr" where
  "LT_make = binary_make LT"

definition is_bool :: "dtype \<Rightarrow> bool" where
  "is_bool t = (type_code t = kUInt \<and> bits t = 1)"

definition And_make :: "expr \<Rightarrow> expr \<Rightarrow> error + expr" where
  "And_make a b =
     (case dtype_of a of
        None \<Rightarrow> Inl CheckFailed
      | Some ta \<Rightarrow>
          (case dtype_of b of
             None \<Rightarrow> Inl CheckFailed
           | Some tb \<Rightarrow>
               if is_bool ta \<and> is_bool tb \<and> ta = tb then Inr (And a b) else Inl CheckFailed))"

definition Store_make :: "var \<Rightarrow> expr \<Rightarrow> expr \<Rightarrow> expr \<Rightarrow> error + stmt" where
  "Store_make buffer_var val index predicate =
     (case dtype_of val of
        None \<Rightarrow> Inl CheckFailed
      | Some tv \<Rightarrow>
          (case dtype_of index of
             None \<Rightarrow> Inl CheckFailed
           | Some ti \<Rightarrow>
               (case dtype_of predicate of
                  None \<Rightarrow> Inl CheckFailed
                | Some tp \<Rightarrow>
                    if lanes tv = lanes ti \<and> lanes tv = lanes tp
                    then Inr (Store buffer_var val index predicate)
                    else Inl CheckFailed)))"

text \<open>
  The index that one round of \<^verbatim>\<open>MakeCondition\<close> checks: the last lane of a ramp, any other
  index as it is.
\<close>

definition ramp_last_lane :: "expr \<Rightarrow> error + expr" where
  "ramp_last_lane index =
     (case index of
        Ramp base stride n \<Rightarrow>
          (case dtype_of stride of
             None \<Rightarrow> Inl NullDeref
           | Some t \<Rightarrow>
               (case Mul_make stride (make_const t (n - 1)) of
                  Inl err \<Rightarrow> Inl err
                | Inr m \<Rightarrow> Add_make base m))
      | _ \<Rightarrow> Inr index)"

text \<open>
  One round of the loop of \<^verbatim>\<open>MakeCondition\<close>: the check of one collected pair. The
  simplifier \<^verbatim>\<open>ir::Simplify\<close> is an external collaborator and is a parameter.
\<close>

definition current_condition :: "(expr \<Rightarrow> expr) \<Rightarrow> expr \<times> expr \<Rightarrow> error + expr" where
  "current_condition simplify buffer_to_mem =
     (let index = fst buffer_to_mem; upper_bound = snd buffer_to_mem in
      (case ramp_last_lane index of
         Inl err \<Rightarrow> Inl err
       | Inr index1 \<Rightarrow>
           (case Cast_make (DT_Int 64) (simplify index1) of
              Inl err \<Rightarrow> Inl err
            | Inr index2 \<Rightarrow>
                (case Cast_make (DT_Int 64) (simplify upper_bound) of
                   Inl err \<Rightarrow> Inl err
                 | Inr upper_bound2 \<Rightarrow>
                     (let lower_bound = make_zero (DT_Int 64) in
                      (case GE_make index2 lower_bound of
                         Inl err \<Rightarrow> Inl err
                       | Inr ge \<Rightarrow>
                           (case LT_make index2 upper_bound2 of
                              Inl err \<Rightarrow> Inl err
                            | Inr lt \<Rightarrow> And_make ge lt)))))))"

fun MakeCondition_loop ::
  "(expr \<Rightarrow> expr) \<Rightarrow> expr \<Rightarrow> nat \<Rightarrow> (expr \<times> expr) list \<Rightarrow> error + expr" where
  "MakeCondition_loop simplify condition i [] = Inr condition"
| "MakeCondition_loop simplify condition i (p # ps) =
     (case current_condition simplify p of
        Inl err \<Rightarrow> Inl err
      | Inr cur \<Rightarrow>
          (case (if i = 0 then Inr cur else And_make condition cur) of
             Inl err \<Rightarrow> Inl err
           | Inr c \<Rightarrow> MakeCondition_loop simplify c (Suc i) ps))"

definition MakeCondition :: "(expr \<Rightarrow> expr) \<Rightarrow> bc_state \<Rightarrow> error + expr" where
  "MakeCondition simplify st =
     MakeCondition_loop simplify Undefined 0 (store_scope_bound_collector st)"

fun is_StringImm :: "expr \<Rightarrow> bool" where
  "is_StringImm (StringImm s) = True"
| "is_StringImm _ = False"

text \<open>
  The expression handlers of \<^verbatim>\<open>BoundChecker\<close>. They return the node they are given (the
  checker never rewrites an expression), so the model returns the state only.

  Modelled from the spec: the default recursion of the mutator base class
  \<^verbatim>\<open>StmtExprMutator\<close> (its code is not part of the two files) visits the children of a node
  in source order; a literal and a variable have no children. The spec is silent on the
  null handle: the dispatch of the base class reads the type index of the node it is
  given, so the visit of the null handle dereferences a null pointer, \<open>Inl NullDeref\<close>.
\<close>

fun BoundChecker_VisitExpr :: "expr \<Rightarrow> bc_state \<Rightarrow> error + bc_state"
  and BoundChecker_VisitArgs :: "expr list \<Rightarrow> bc_state \<Rightarrow> error + bc_state" where
  "BoundChecker_VisitExpr (Load t buffer_var index predicate) st =
     (let st1 = (if CanInstrument st index buffer_var then Collect_bound index buffer_var st else st)
      in (case BoundChecker_VisitExpr index st1 of
            Inl err \<Rightarrow> Inl err
          | Inr st2 \<Rightarrow> BoundChecker_VisitExpr predicate st2))"
| "BoundChecker_VisitExpr (Call t name args ct) st =
     (let st1 = (if process_store st \<and> is_intrinsic (Call t name args ct) tvm_if_then_else
                 then st\<lparr>unsafe_rewritten := True\<rparr> else st)
      in BoundChecker_VisitArgs args st1)"
| "BoundChecker_VisitExpr (Cast t e) st = BoundChecker_VisitExpr e st"
| "BoundChecker_VisitExpr (Add a b) st =
     (case BoundChecker_VisitExpr a st of
        Inl err \<Rightarrow> Inl err | Inr st1 \<Rightarrow> BoundChecker_VisitExpr b st1)"
| "BoundChecker_VisitExpr (Mul a b) st =
     (case BoundChecker_VisitExpr a st of
        Inl err \<Rightarrow> Inl err | Inr st1 \<Rightarrow> BoundChecker_VisitExpr b st1)"
| "BoundChecker_VisitExpr (Div a b) st =
     (case BoundChecker_VisitExpr a st of
        Inl err \<Rightarrow> Inl err | Inr st1 \<Rightarrow> BoundChecker_VisitExpr b st1)"
| "BoundChecker_VisitExpr (GE a b) st =
     (case BoundChecker_VisitExpr a st of
        Inl err \<Rightarrow> Inl err | Inr st1 \<Rightarrow> BoundChecker_VisitExpr b st1)"
| "BoundChecker_VisitExpr (LT a b) st =
     (case BoundChecker_VisitExpr a st of
        Inl err \<Rightarrow> Inl err | Inr st1 \<Rightarrow> BoundChecker_VisitExpr b st1)"
| "BoundChecker_VisitExpr (And a b) st =
     (case BoundChecker_VisitExpr a st of
        Inl err \<Rightarrow> Inl err | Inr st1 \<Rightarrow> BoundChecker_VisitExpr b st1)"
| "BoundChecker_VisitExpr (Ramp base stride n) st =
     (case BoundChecker_VisitExpr base st of
        Inl err \<Rightarrow> Inl err | Inr st1 \<Rightarrow> BoundChecker_VisitExpr stride st1)"
| "BoundChecker_VisitExpr Undefined st = Inl NullDeref"
| "BoundChecker_VisitExpr (Variable v) st = Inr st"
| "BoundChecker_VisitExpr (IntImm t n) st = Inr st"
| "BoundChecker_VisitExpr (StringImm s) st = Inr st"
| "BoundChecker_VisitArgs [] st = Inr st"
| "BoundChecker_VisitArgs (e # es) st =
     (case BoundChecker_VisitExpr e st of
        Inl err \<Rightarrow> Inl err | Inr st1 \<Rightarrow> BoundChecker_VisitArgs es st1)"

text \<open>
  \<^verbatim>\<open>BoundChecker::VisitStmt_(const Store*)\<close> in two steps. \<open>Store_recurse\<close> is its
  beginning: the collector is cleared, the flags are set and the default recursion visits
  the value, the index and the predicate. \<open>Store_finish\<close> is the rest of the handler,
  on the state the recursion left; it rebuilds the store with \<^verbatim>\<open>Store::make\<close> when it
  wraps it, and returns the node it was given otherwise.
\<close>

definition Store_recurse :: "expr \<Rightarrow> expr \<Rightarrow> expr \<Rightarrow> bc_state \<Rightarrow> error + bc_state" where
  "Store_recurse val index predicate st =
     (let st1 = st\<lparr>store_scope_bound_collector := [], process_store := True,
                   unsafe_rewritten := False\<rparr>
      in (case BoundChecker_VisitExpr val st1 of
            Inl err \<Rightarrow> Inl err
          | Inr st2 \<Rightarrow>
              (case BoundChecker_VisitExpr index st2 of
                 Inl err \<Rightarrow> Inl err
               | Inr st3 \<Rightarrow> BoundChecker_VisitExpr predicate st3)))"

definition Store_finish ::
  "(expr \<Rightarrow> expr) \<Rightarrow> var \<Rightarrow> expr \<Rightarrow> expr \<Rightarrow> expr \<Rightarrow> bc_state \<Rightarrow> error + (stmt \<times> bc_state)" where
  "Store_finish simplify buffer_var val index predicate st =
     (let st1 = st\<lparr>process_store := False\<rparr>;
          st2 = (if CanInstrument st1 index buffer_var then Collect_bound index buffer_var st1 else st1)
      in if store_scope_bound_collector st2 \<noteq> [] then
           (case MakeCondition simplify st2 of
              Inl err \<Rightarrow> Inl err
            | Inr condition \<Rightarrow>
                if \<not> is_StringImm condition then
                  (let nop = Evaluate (IntImm (DT_Int 32) 1) in
                   (case Store_make buffer_var val index predicate of
                      Inl err \<Rightarrow> Inl err
                    | Inr then_case \<Rightarrow>
                        (let else_case = AssertStmt condition (StringImm error_message) nop
                         in Inr (IfThenElse condition then_case (Some else_case), st2))))
                else Inr (Store buffer_var val index predicate, st2))
         else Inr (Store buffer_var val index predicate, st2))"

text \<open>
  The statement handlers of \<^verbatim>\<open>BoundChecker\<close>: \<open>Allocate\<close> and \<open>Store\<close> are its own, the
  other statements take the default recursion (children in source order, the node rebuilt
  from the visited children).
\<close>

fun BoundChecker_VisitStmt ::
  "(expr \<Rightarrow> expr) \<Rightarrow> stmt \<Rightarrow> bc_state \<Rightarrow> error + (stmt \<times> bc_state)" where
  "BoundChecker_VisitStmt simplify (Allocate buffer_var t extents condition body new_expr ff) st =
     (case (if UpdateIsNeeded (mem_to_shape st) buffer_var
            then Update (mem_to_shape st) buffer_var extents t
            else Inr (mem_to_shape st)) of
        Inl err \<Rightarrow> Inl err
      | Inr m \<Rightarrow>
          (case BoundChecker_VisitArgs extents (st\<lparr>mem_to_shape := m\<rparr>) of
             Inl err \<Rightarrow> Inl err
           | Inr st2 \<Rightarrow>
               (case BoundChecker_VisitStmt simplify body st2 of
                  Inl err \<Rightarrow> Inl err
                | Inr (body', st3) \<Rightarrow>
                    (case BoundChecker_VisitExpr condition st3 of
                       Inl err \<Rightarrow> Inl err
                     | Inr st4 \<Rightarrow>
                         (case (if defined new_expr then BoundChecker_VisitExpr new_expr st4
                                else Inr st4) of
                            Inl err \<Rightarrow> Inl err
                          | Inr st5 \<Rightarrow>
                              Inr (Allocate buffer_var t extents condition body' new_expr ff,
                                   st5))))))"
| "BoundChecker_VisitStmt simplify (Store buffer_var val index predicate) st =
     (case Store_recurse val index predicate st of
        Inl err \<Rightarrow> Inl err
      | Inr st1 \<Rightarrow> Store_finish simplify buffer_var val index predicate st1)"
| "BoundChecker_VisitStmt simplify (LetStmt v val body) st =
     (case BoundChecker_VisitExpr val st of
        Inl err \<Rightarrow> Inl err
      | Inr st1 \<Rightarrow>
          (case BoundChecker_VisitStmt simplify body st1 of
             Inl err \<Rightarrow> Inl err
           | Inr (body', st') \<Rightarrow> Inr (LetStmt v val body', st')))"
| "BoundChecker_VisitStmt simplify (AttrStmt node key val body) st =
     (case BoundChecker_VisitExpr val st of
        Inl err \<Rightarrow> Inl err
      | Inr st1 \<Rightarrow>
          (case BoundChecker_VisitStmt simplify body st1 of
             Inl err \<Rightarrow> Inl err
           | Inr (body', st') \<Rightarrow> Inr (AttrStmt node key val body', st')))"
| "BoundChecker_VisitStmt simplify (AssertStmt condition message body) st =
     (case BoundChecker_VisitExpr condition st of
        Inl err \<Rightarrow> Inl err
      | Inr st1 \<Rightarrow>
          (case BoundChecker_VisitExpr message st1 of
             Inl err \<Rightarrow> Inl err
           | Inr st2 \<Rightarrow>
               (case BoundChecker_VisitStmt simplify body st2 of
                  Inl err \<Rightarrow> Inl err
                | Inr (body', st') \<Rightarrow> Inr (AssertStmt condition message body', st'))))"
| "BoundChecker_VisitStmt simplify (For loop_var min_e extent ft dev body) st =
     (case BoundChecker_VisitExpr min_e st of
        Inl err \<Rightarrow> Inl err
      | Inr st1 \<Rightarrow>
          (case BoundChecker_VisitExpr extent st1 of
             Inl err \<Rightarrow> Inl err
           | Inr st2 \<Rightarrow>
               (case BoundChecker_VisitStmt simplify body st2 of
                  Inl err \<Rightarrow> Inl err
                | Inr (body', st') \<Rightarrow> Inr (For loop_var min_e extent ft dev body', st'))))"
| "BoundChecker_VisitStmt simplify (IfThenElse condition then_case else_case) st =
     (case BoundChecker_VisitExpr condition st of
        Inl err \<Rightarrow> Inl err
      | Inr st0 \<Rightarrow>
          (case BoundChecker_VisitStmt simplify then_case st0 of
             Inl err \<Rightarrow> Inl err
           | Inr (then', st1) \<Rightarrow>
               (case else_case of
                  None \<Rightarrow> Inr (IfThenElse condition then' None, st1)
                | Some e \<Rightarrow>
                    (case BoundChecker_VisitStmt simplify e st1 of
                       Inl err \<Rightarrow> Inl err
                     | Inr (else', st2) \<Rightarrow> Inr (IfThenElse condition then' (Some else'), st2)))))"
| "BoundChecker_VisitStmt simplify (Block first rest) st =
     (case BoundChecker_VisitStmt simplify first st of
        Inl err \<Rightarrow> Inl err
      | Inr (first', st1) \<Rightarrow>
          (case BoundChecker_VisitStmt simplify rest st1 of
             Inl err \<Rightarrow> Inl err
           | Inr (rest', st2) \<Rightarrow> Inr (Block first' rest', st2)))"
| "BoundChecker_VisitStmt simplify (Evaluate e) st =
     (case BoundChecker_VisitExpr e st of
        Inl err \<Rightarrow> Inl err
      | Inr st1 \<Rightarrow> Inr (Evaluate e, st1))"

subsection \<open>The collector pre-pass and the driver\<close>

text \<open>\<^verbatim>\<open>BoundCollector\<close>: a statement walk that records every \<^verbatim>\<open>buffer_bound\<close> attribute on
  a variable and recurses into all statement children (default \<^verbatim>\<open>StmtVisitor\<close> order).\<close>

fun BoundCollector_VisitStmt :: "stmt \<Rightarrow> (var \<rightharpoonup> expr) \<Rightarrow> (var \<rightharpoonup> expr)" where
  "BoundCollector_VisitStmt (AttrStmt node key val body) m =
     BoundCollector_VisitStmt body
       (if key = attr_buffer_bound
        then (case node of NodeVariable k \<Rightarrow> m(k \<mapsto> val) | _ \<Rightarrow> m)
        else m)"
| "BoundCollector_VisitStmt (LetStmt v val body) m = BoundCollector_VisitStmt body m"
| "BoundCollector_VisitStmt (AssertStmt c msg body) m = BoundCollector_VisitStmt body m"
| "BoundCollector_VisitStmt (Allocate b t es c body ne ff) m = BoundCollector_VisitStmt body m"
| "BoundCollector_VisitStmt (For v mn ext ft dev body) m = BoundCollector_VisitStmt body m"
| "BoundCollector_VisitStmt (IfThenElse c t e) m =
     (case e of
        None \<Rightarrow> BoundCollector_VisitStmt t m
      | Some s \<Rightarrow> BoundCollector_VisitStmt s (BoundCollector_VisitStmt t m))"
| "BoundCollector_VisitStmt (Block first rest) m =
     BoundCollector_VisitStmt rest (BoundCollector_VisitStmt first m)"
| "BoundCollector_VisitStmt (Store b v i p) m = m"
| "BoundCollector_VisitStmt (Evaluate e) m = m"

definition BoundChecker_init :: "(var \<rightharpoonup> expr) \<Rightarrow> bc_state" where
  "BoundChecker_init m =
     \<lparr>process_store = False, unsafe_rewritten = False,
      store_scope_bound_collector = [], mem_to_shape = m\<rparr>"

definition InstrumentBoundCheckers :: "(expr \<Rightarrow> expr) \<Rightarrow> stmt \<Rightarrow> error + stmt" where
  "InstrumentBoundCheckers simplify s =
     (case BoundChecker_VisitStmt simplify s
             (BoundChecker_init (BoundCollector_VisitStmt s Map.empty)) of
        Inl err \<Rightarrow> Inl err
      | Inr (s', st) \<Rightarrow> Inr s')"

section \<open>Virtual threads: the rewriter\<close>

text \<open>
  The constructor arguments of \<^verbatim>\<open>VTInjector\<close> (the thread variable, the thread count, the
  touched set and the sharing flag) and its mutable fields.
\<close>

record vt_config =
  vt_var :: var
  num_threads :: int
  touched_var :: "var set"
  allow_share :: bool

record vt_state =
  vt_loop_injected :: bool
  visit_touched_var :: bool
  trigger_base_inject :: bool
  max_loop_depth :: int
  alloc_remap :: "var \<rightharpoonup> expr"

definition VTInjector_init :: vt_state where
  "VTInjector_init =
     \<lparr>vt_loop_injected = False, visit_touched_var = False, trigger_base_inject = False,
      max_loop_depth = 0, alloc_remap = Map.empty\<rparr>"

text \<open>
  The overloaded operators \<^verbatim>\<open>+\<close>, \<^verbatim>\<open>*\<close> and \<^verbatim>\<open>/\<close> of the IR library are written as the
  nodes they denote (\<open>Add\<close>, \<open>Mul\<close>, \<open>Div\<close>); the library's constant folding of literal
  operands is outside the two files.
\<close>

definition RewriteIndex :: "vt_config \<Rightarrow> expr \<Rightarrow> expr \<Rightarrow> expr" where
  "RewriteIndex cfg index alloc_extent = Add index (Mul (Variable (vt_var cfg)) alloc_extent)"

text \<open>The rewritten offset of a \<^verbatim>\<open>tvm_access_ptr\<close> call on a remapped buffer: \<open>dt\<close> is the
  type of the first argument, \<open>ot\<close> the type of the visited offset.\<close>

definition access_ptr_offset :: "vt_config \<Rightarrow> expr \<Rightarrow> dtype \<Rightarrow> dtype \<Rightarrow> expr \<Rightarrow> expr" where
  "access_ptr_offset cfg alloc_extent dt ot offset =
     (let stride = Div alloc_extent (make_const ot (lanes dt))
      in Add (Mul stride (Variable (vt_var cfg))) offset)"

fun VTInjector_VisitExpr :: "vt_config \<Rightarrow> expr \<Rightarrow> vt_state \<Rightarrow> error + (expr \<times> vt_state)"
and VTInjector_VisitArgs :: "vt_config \<Rightarrow> expr list \<Rightarrow> vt_state \<Rightarrow> error + (expr list \<times> vt_state)"
where
  "VTInjector_VisitExpr cfg (Variable v) st =
     (if v \<in> dom (alloc_remap st) then Inl CheckFailed
      else Inr (Variable v,
                if v \<in> touched_var cfg then st\<lparr>visit_touched_var := True\<rparr> else st))"
| "VTInjector_VisitExpr cfg (Load t buffer_var index predicate) st =
     (case VTInjector_VisitExpr cfg index st of
        Inl err \<Rightarrow> Inl err
      | Inr (index', st1) \<Rightarrow>
          (case VTInjector_VisitExpr cfg predicate st1 of
             Inl err \<Rightarrow> Inl err
           | Inr (predicate', st2) \<Rightarrow>
               (let st3 = (if buffer_var \<in> touched_var cfg
                           then st2\<lparr>visit_touched_var := True\<rparr> else st2)
                in (case alloc_remap st3 buffer_var of
                      Some alloc_extent \<Rightarrow>
                        Inr (Load t buffer_var (RewriteIndex cfg index' alloc_extent) predicate', st3)
                    | None \<Rightarrow> Inr (Load t buffer_var index' predicate', st3)))))"
| "VTInjector_VisitExpr cfg (Call t name args ct) st =
     (if is_intrinsic (Call t name args ct) tvm_access_ptr then
        (case args of
           [a0, a1, a2, a3, a4] \<Rightarrow>
             (case dtype_of a0 of
                None \<Rightarrow> Inl NullDeref
              | Some dt \<Rightarrow>
                  (case (case a1 of Variable buffer \<Rightarrow> alloc_remap st buffer | _ \<Rightarrow> None) of
                     None \<Rightarrow>
                       (case VTInjector_VisitArgs cfg args st of
                          Inl err \<Rightarrow> Inl err
                        | Inr (args', st') \<Rightarrow> Inr (Call t name args' ct, st'))
                   | Some alloc_extent \<Rightarrow>
                       (case VTInjector_VisitExpr cfg a2 (st\<lparr>visit_touched_var := True\<rparr>) of
                          Inl err \<Rightarrow> Inl err
                        | Inr (offset, st1) \<Rightarrow>
                            (case VTInjector_VisitExpr cfg a3 st1 of
                               Inl err \<Rightarrow> Inl err
                             | Inr (extent, st2) \<Rightarrow>
                                 (case dtype_of offset of
                                    None \<Rightarrow> Inl NullDeref
                                  | Some ot \<Rightarrow>
                                      Inr (Call t name
                                             [a0, a1,
                                              access_ptr_offset cfg alloc_extent dt ot offset,
                                              extent, a4] ct, st2))))))
         | _ \<Rightarrow> Inl CheckFailed)
      else if is_intrinsic (Call t name args ct) tvm_context_id then
        Inr (if allow_share cfg then Call t name args ct else Variable (vt_var cfg), st)
      else
        (case VTInjector_VisitArgs cfg args st of
           Inl err \<Rightarrow> Inl err
         | Inr (args', st') \<Rightarrow> Inr (Call t name args' ct, st')))"
| "VTInjector_VisitExpr cfg (Cast t e) st =
     (case VTInjector_VisitExpr cfg e st of
        Inl err \<Rightarrow> Inl err
      | Inr (e', st') \<Rightarrow> Inr (Cast t e', st'))"
| "VTInjector_VisitExpr cfg (Add a b) st =
     (case VTInjector_VisitExpr cfg a st of
        Inl err \<Rightarrow> Inl err
      | Inr (a', st1) \<Rightarrow>
          (case VTInjector_VisitExpr cfg b st1 of
             Inl err \<Rightarrow> Inl err
           | Inr (b', st2) \<Rightarrow> Inr (Add a' b', st2)))"
| "VTInjector_VisitExpr cfg (Mul a b) st =
     (case VTInjector_VisitExpr cfg a st of
        Inl err \<Rightarrow> Inl err
      | Inr (a', st1) \<Rightarrow>
          (case VTInjector_VisitExpr cfg b st1 of
             Inl err \<Rightarrow> Inl err
           | Inr (b', st2) \<Rightarrow> Inr (Mul a' b', st2)))"
| "VTInjector_VisitExpr cfg (Div a b) st =
     (case VTInjector_VisitExpr cfg a st of
        Inl err \<Rightarrow> Inl err
      | Inr (a', st1) \<Rightarrow>
          (case VTInjector_VisitExpr cfg b st1 of
             Inl err \<Rightarrow> Inl err
           | Inr (b', st2) \<Rightarrow> Inr (Div a' b', st2)))"
| "VTInjector_VisitExpr cfg (GE a b) st =
     (case VTInjector_VisitExpr cfg a st of
        Inl err \<Rightarrow> Inl err
      | Inr (a', st1) \<Rightarrow>
          (case VTInjector_VisitExpr cfg b st1 of
             Inl err \<Rightarrow> Inl err
           | Inr (b', st2) \<Rightarrow> Inr (GE a' b', st2)))"
| "VTInjector_VisitExpr cfg (LT a b) st =
     (case VTInjector_VisitExpr cfg a st of
        Inl err \<Rightarrow> Inl err
      | Inr (a', st1) \<Rightarrow>
          (case VTInjector_VisitExpr cfg b st1 of
             Inl err \<Rightarrow> Inl err
           | Inr (b', st2) \<Rightarrow> Inr (LT a' b', st2)))"
| "VTInjector_VisitExpr cfg (And a b) st =
     (case VTInjector_VisitExpr cfg a st of
        Inl err \<Rightarrow> Inl err
      | Inr (a', st1) \<Rightarrow>
          (case VTInjector_VisitExpr cfg b st1 of
             Inl err \<Rightarrow> Inl err
           | Inr (b', st2) \<Rightarrow> Inr (And a' b', st2)))"
| "VTInjector_VisitExpr cfg (Ramp base stride n) st =
     (case VTInjector_VisitExpr cfg base st of
        Inl err \<Rightarrow> Inl err
      | Inr (base', st1) \<Rightarrow>
          (case VTInjector_VisitExpr cfg stride st1 of
             Inl err \<Rightarrow> Inl err
           | Inr (stride', st2) \<Rightarrow> Inr (Ramp base' stride' n, st2)))"
| "VTInjector_VisitExpr cfg Undefined st = Inr (Undefined, st)"
| "VTInjector_VisitExpr cfg (IntImm t n) st = Inr (IntImm t n, st)"
| "VTInjector_VisitExpr cfg (StringImm s) st = Inr (StringImm s, st)"
| "VTInjector_VisitArgs cfg [] st = Inr ([], st)"
| "VTInjector_VisitArgs cfg (e # es) st =
     (case VTInjector_VisitExpr cfg e st of
        Inl err \<Rightarrow> Inl err
      | Inr (e', st1) \<Rightarrow>
          (case VTInjector_VisitArgs cfg es st1 of
             Inl err \<Rightarrow> Inl err
           | Inr (es', st2) \<Rightarrow> Inr (e' # es', st2)))"

text \<open>The four branches of the \<open>Call\<close> handler, one equation each.\<close>

lemma VisitExpr_Call_default:
  "\<not> is_intrinsic (Call t name args ct) tvm_access_ptr \<Longrightarrow>
   \<not> is_intrinsic (Call t name args ct) tvm_context_id \<Longrightarrow>
   VTInjector_VisitExpr cfg (Call t name args ct) st =
     (case VTInjector_VisitArgs cfg args st of
        Inl err \<Rightarrow> Inl err
      | Inr (args', st') \<Rightarrow> Inr (Call t name args' ct, st'))"
  by (simp del: is_intrinsic.simps)

lemma VisitExpr_Call_context_id:
  "\<not> is_intrinsic (Call t name args ct) tvm_access_ptr \<Longrightarrow>
   is_intrinsic (Call t name args ct) tvm_context_id \<Longrightarrow>
   VTInjector_VisitExpr cfg (Call t name args ct) st =
     Inr (if allow_share cfg then Call t name args ct else Variable (vt_var cfg), st)"
  by (simp del: is_intrinsic.simps)

lemma VisitExpr_Call_access_ptr_plain:
  "is_intrinsic (Call t name args ct) tvm_access_ptr \<Longrightarrow> args = [a0, a1, a2, a3, a4] \<Longrightarrow>
   dtype_of a0 = Some dt \<Longrightarrow>
   (case a1 of Variable buffer \<Rightarrow> alloc_remap st buffer | _ \<Rightarrow> None) = None \<Longrightarrow>
   VTInjector_VisitExpr cfg (Call t name args ct) st =
     (case VTInjector_VisitArgs cfg args st of
        Inl err \<Rightarrow> Inl err
      | Inr (args', st') \<Rightarrow> Inr (Call t name args' ct, st'))"
  by (simp del: is_intrinsic.simps VTInjector_VisitArgs.simps)

lemma VisitExpr_Call_access_ptr_remapped:
  "is_intrinsic (Call t name args ct) tvm_access_ptr \<Longrightarrow> args = [a0, a1, a2, a3, a4] \<Longrightarrow>
   dtype_of a0 = Some dt \<Longrightarrow>
   (case a1 of Variable buffer \<Rightarrow> alloc_remap st buffer | _ \<Rightarrow> None) = Some alloc_extent \<Longrightarrow>
   VTInjector_VisitExpr cfg (Call t name args ct) st =
     (case VTInjector_VisitExpr cfg a2 (st\<lparr>visit_touched_var := True\<rparr>) of
        Inl err \<Rightarrow> Inl err
      | Inr (offset, st1) \<Rightarrow>
          (case VTInjector_VisitExpr cfg a3 st1 of
             Inl err \<Rightarrow> Inl err
           | Inr (extent, st2) \<Rightarrow>
               (case dtype_of offset of
                  None \<Rightarrow> Inl NullDeref
                | Some ot \<Rightarrow>
                    Inr (Call t name
                           [a0, a1, access_ptr_offset cfg alloc_extent dt ot offset, extent, a4]
                           ct, st2))))"
  by (simp del: is_intrinsic.simps VTInjector_VisitArgs.simps)

lemma VisitExpr_Call_access_ptr_error:
  "is_intrinsic (Call t name args ct) tvm_access_ptr \<Longrightarrow>
   VTInjector_VisitExpr cfg (Call t name args ct) st = Inr r \<Longrightarrow>
   \<exists>a0 a1 a2 a3 a4 dt. args = [a0, a1, a2, a3, a4] \<and> dtype_of a0 = Some dt"
  by (simp del: is_intrinsic.simps VTInjector_VisitArgs.simps split: list.splits option.splits)


declare VTInjector_VisitExpr.simps(3) [simp del]

text \<open>The expression handlers only ever raise \<open>visit_touched_var\<close>: the other fields
  of the rewriter are left as they were.\<close>

definition keeps_fields :: "vt_state \<Rightarrow> vt_state \<Rightarrow> bool" where
  "keeps_fields st st' =
     (vt_loop_injected st' = vt_loop_injected st \<and> max_loop_depth st' = max_loop_depth st \<and>
      alloc_remap st' = alloc_remap st \<and> trigger_base_inject st' = trigger_base_inject st)"

lemma keeps_fields_refl: "keeps_fields st st"
  by (simp add: keeps_fields_def)

lemma keeps_fields_trans: "keeps_fields st st1 \<Longrightarrow> keeps_fields st1 st2 \<Longrightarrow> keeps_fields st st2"
  by (simp add: keeps_fields_def)

lemma keeps_fields_touch: "keeps_fields st (st\<lparr>visit_touched_var := b\<rparr>)"
  by (simp add: keeps_fields_def)

lemma keeps_fields_touch_left:
  "keeps_fields (st\<lparr>visit_touched_var := b\<rparr>) st' \<Longrightarrow> keeps_fields st st'"
  by (simp add: keeps_fields_def)

lemma VTInjector_VisitExpr_fields:
  "VTInjector_VisitExpr cfg e st = Inr (e', st') \<Longrightarrow> keeps_fields st st'"
  "VTInjector_VisitArgs cfg es st = Inr (es', st') \<Longrightarrow> keeps_fields st st'"
proof (induction cfg e st and cfg es st arbitrary: e' st' and es' st'
       rule: VTInjector_VisitExpr_VTInjector_VisitArgs.induct)
  case (1 cfg v st)
  then show ?case by (auto split: if_splits intro: keeps_fields_refl keeps_fields_touch)
next
  case (2 cfg t buffer_var index predicate st)
  from "2.prems" obtain index' st1 predicate' st2 where
    a: "VTInjector_VisitExpr cfg index st = Inr (index', st1)" and
    b: "VTInjector_VisitExpr cfg predicate st1 = Inr (predicate', st2)" and
    c: "st' = (if buffer_var \<in> touched_var cfg then st2\<lparr>visit_touched_var := True\<rparr> else st2)"
    by (auto simp: Let_def split: sum.splits prod.splits option.splits)
  have "keeps_fields st2 st'" using c by (simp add: keeps_fields_refl keeps_fields_touch)
  with "2.IH"(1)[OF a] "2.IH"(2)[OF a refl b] show ?case by (blast intro: keeps_fields_trans)
next
  case (3 cfg t name args ct st)
  show ?case
  proof (cases "is_intrinsic (Call t name args ct) tvm_access_ptr")
    case True
    from VisitExpr_Call_access_ptr_error[OF True "3.prems"]
    obtain a0 a1 a2 a3 a4 dt where args: "args = [a0, a1, a2, a3, a4]"
      and dt: "dtype_of a0 = Some dt" by blast
    note IH1 = "3.IH"(1)[OF True args refl refl refl refl refl dt]
    note IH2 = "3.IH"(2)[OF True args refl refl refl refl refl dt]
    note IH3 = "3.IH"(3)[OF True args refl refl refl refl refl dt]
    show ?thesis
    proof (cases "case a1 of Variable buffer \<Rightarrow> alloc_remap st buffer | _ \<Rightarrow> None")
      case None
      from "3.prems" VisitExpr_Call_access_ptr_plain[OF True args dt None]
      obtain args' where "VTInjector_VisitArgs cfg args st = Inr (args', st')"
        by (auto split: sum.splits prod.splits)
      from IH1[OF None this] show ?thesis .
    next
      case (Some ext)
      from "3.prems" VisitExpr_Call_access_ptr_remapped[OF True args dt Some]
      obtain offset st1 extent where
        v2: "VTInjector_VisitExpr cfg a2 (st\<lparr>visit_touched_var := True\<rparr>) = Inr (offset, st1)" and
        v3: "VTInjector_VisitExpr cfg a3 st1 = Inr (extent, st')"
        by (auto split: sum.splits prod.splits option.splits)
      from IH2[OF Some v2] IH3[OF Some v2 refl v3]
      show ?thesis by (blast intro: keeps_fields_trans keeps_fields_touch_left)
    qed
  next
    case False
    show ?thesis
    proof (cases "is_intrinsic (Call t name args ct) tvm_context_id")
      case True
      with "3.prems" VisitExpr_Call_context_id[OF False True] show ?thesis
        by (auto intro: keeps_fields_refl)
    next
      case F2: False
      from "3.prems" VisitExpr_Call_default[OF False F2]
      obtain args' where "VTInjector_VisitArgs cfg args st = Inr (args', st')"
        by (auto split: sum.splits prod.splits)
      from "3.IH"(4)[OF False F2 this] show ?thesis .
    qed
  qed
qed (auto split: sum.splits prod.splits intro: keeps_fields_refl keeps_fields_trans)


text \<open>
  The loop over the extents in \<^verbatim>\<open>VTInjector::VisitStmt_(const Allocate*)\<close>. It stops with
  \<open>None\<close> at the first extent whose visit raised \<open>visit_touched_var\<close> while no loop is
  injected: the handler then injects the loop at the allocation.
\<close>

fun VTInjector_VisitExtents ::
  "vt_config \<Rightarrow> expr list \<Rightarrow> vt_state \<Rightarrow> error + (expr list option \<times> vt_state)" where
  "VTInjector_VisitExtents cfg [] st = Inr (Some [], st)"
| "VTInjector_VisitExtents cfg (e # es) st =
     (case VTInjector_VisitExpr cfg e st of
        Inl err \<Rightarrow> Inl err
      | Inr (new_ext, st1) \<Rightarrow>
          if visit_touched_var st1 \<and> \<not> vt_loop_injected st1 then Inr (None, st1)
          else (case VTInjector_VisitExtents cfg es st1 of
                  Inl err \<Rightarrow> Inl err
                | Inr (None, st2) \<Rightarrow> Inr (None, st2)
                | Inr (Some es', st2) \<Rightarrow> Inr (Some (new_ext # es'), st2)))"

lemma VTInjector_VisitExtents_fields:
  "VTInjector_VisitExtents cfg es st = Inr (r, st') \<Longrightarrow> keeps_fields st st'"
proof (induction es arbitrary: st r st')
  case Nil
  then show ?case by (simp add: keeps_fields_refl)
next
  case (Cons e es)
  from Cons.prems obtain new_ext st1 where
    a: "VTInjector_VisitExpr cfg e st = Inr (new_ext, st1)"
    by (auto split: sum.splits prod.splits)
  note k1 = VTInjector_VisitExpr_fields(1)[OF a]
  show ?case
  proof (cases "visit_touched_var st1 \<and> \<not> vt_loop_injected st1")
    case True
    with Cons.prems a k1 show ?thesis by auto
  next
    case False
    with Cons.prems a obtain r2 where "VTInjector_VisitExtents cfg es st1 = Inr (r2, st')"
      by (auto split: sum.splits prod.splits option.splits)
    from Cons.IH[OF this] k1 show ?thesis by (blast intro: keeps_fields_trans)
  qed
qed

text \<open>Modelled from the spec: \<^verbatim>\<open>arith::ComputeReduce<Mul>\<close> of the missing header
  \<^verbatim>\<open>compute_expr.h\<close> is the product of the extents (the null handle for no extent).\<close>

fun ComputeReduce_Mul :: "expr list \<Rightarrow> expr" where
  "ComputeReduce_Mul [] = Undefined"
| "ComputeReduce_Mul (e # es) = foldl Mul e es"

text \<open>The per-thread stride that the \<open>Allocate\<close> handler records:
  \<^verbatim>\<open>ComputeReduce<Mul>(op->extents, Expr()) * op->dtype.lanes()\<close>.\<close>

definition alloc_stride :: "expr list \<Rightarrow> dtype \<Rightarrow> error + expr" where
  "alloc_stride extents t =
     (let p = ComputeReduce_Mul extents
      in (case dtype_of p of
            None \<Rightarrow> Inl NullDeref
          | Some pt \<Rightarrow> Inr (Mul p (make_const pt (lanes t)))))"

text \<open>The variables that occur in an expression and in a statement, binding occurrences
  and buffer variables included.\<close>

fun expr_vars :: "expr \<Rightarrow> var list" where
  "expr_vars Undefined = []"
| "expr_vars (Variable v) = [v]"
| "expr_vars (IntImm t n) = []"
| "expr_vars (StringImm s) = []"
| "expr_vars (Cast t e) = expr_vars e"
| "expr_vars (Add a b) = expr_vars a @ expr_vars b"
| "expr_vars (Mul a b) = expr_vars a @ expr_vars b"
| "expr_vars (Div a b) = expr_vars a @ expr_vars b"
| "expr_vars (GE a b) = expr_vars a @ expr_vars b"
| "expr_vars (LT a b) = expr_vars a @ expr_vars b"
| "expr_vars (And a b) = expr_vars a @ expr_vars b"
| "expr_vars (Ramp base stride n) = expr_vars base @ expr_vars stride"
| "expr_vars (Load t b index predicate) = b # expr_vars index @ expr_vars predicate"
| "expr_vars (Call t name args ct) = concat (map expr_vars args)"

fun node_vars :: "node_ref \<Rightarrow> var list" where
  "node_vars (NodeVariable v) = [v]"
| "node_vars (NodeIterVar v tag) = [v]"
| "node_vars NodeOther = []"

fun stmt_vars :: "stmt \<Rightarrow> var list" where
  "stmt_vars (LetStmt v val body) = v # expr_vars val @ stmt_vars body"
| "stmt_vars (AttrStmt node key val body) = node_vars node @ expr_vars val @ stmt_vars body"
| "stmt_vars (AssertStmt c msg body) = expr_vars c @ expr_vars msg @ stmt_vars body"
| "stmt_vars (Store b val index predicate) =
     b # expr_vars val @ expr_vars index @ expr_vars predicate"
| "stmt_vars (Allocate b t extents c body new_expr ff) =
     b # concat (map expr_vars extents) @ expr_vars c @ stmt_vars body @ expr_vars new_expr"
| "stmt_vars (For v mn ext ft dev body) = v # expr_vars mn @ expr_vars ext @ stmt_vars body"
| "stmt_vars (IfThenElse c t e) =
     expr_vars c @ stmt_vars t @ (case e of None \<Rightarrow> [] | Some s \<Rightarrow> stmt_vars s)"
| "stmt_vars (Block first rest) = stmt_vars first @ stmt_vars rest"
| "stmt_vars (Evaluate e) = expr_vars e"

text \<open>
  The construction \<^verbatim>\<open>Var idx(name, dtype)\<close> allocates a new node, which is no node of the
  program so far. The model has no heap: the new node gets an identity above the
  identities of the variables in \<open>used\<close>, the variables among which it will stand.
\<close>

definition new_Var :: "string \<Rightarrow> dtype \<Rightarrow> var list \<Rightarrow> var" where
  "new_Var name t used = Var name t (Suc (foldr max (map node_id used) 0))"

text \<open>
  The end of \<^verbatim>\<open>InjectVTLoop\<close>, after the optional re-mutation: unroll, or emit a serial
  loop. \<^verbatim>\<open>Substitute\<close> is an external collaborator and is the parameter \<open>subst\<close>
  (statement, variable, replacement).
\<close>

function unroll_from ::
  "(stmt \<Rightarrow> var \<Rightarrow> expr \<Rightarrow> stmt) \<Rightarrow> vt_config \<Rightarrow> stmt \<Rightarrow> int \<Rightarrow> stmt \<Rightarrow> stmt" where
  "unroll_from subst cfg s i blk =
     (if i < num_threads cfg
      then unroll_from subst cfg s (i + 1)
             (Block blk (subst s (vt_var cfg) (make_const (var_dtype (vt_var cfg)) i)))
      else blk)"
  by pat_completeness auto
termination
  by (relation "measure (\<lambda>(subst, cfg, s, i, blk). nat (num_threads cfg - i))") auto

declare unroll_from.simps [simp del]

definition InjectVTLoop_emit ::
  "(stmt \<Rightarrow> var \<Rightarrow> expr \<Rightarrow> stmt) \<Rightarrow> vt_config \<Rightarrow> stmt \<Rightarrow> vt_state \<Rightarrow> stmt \<times> vt_state" where
  "InjectVTLoop_emit subst cfg s st =
     (let st1 = st\<lparr>vt_loop_injected := False, visit_touched_var := False\<rparr>
      in if max_loop_depth st1 = 0 \<and> num_threads cfg < 16 then
           (unroll_from subst cfg s 1
              (subst s (vt_var cfg) (make_zero (var_dtype (vt_var cfg)))), st1)
         else
           (let idx = new_Var (name_hint (vt_var cfg) @ ''.s'') (var_dtype (vt_var cfg))
                        (vt_var cfg # stmt_vars s)
            in (For idx (make_zero (var_dtype idx)) (make_const (var_dtype idx) (num_threads cfg))
                  Serial DeviceNone (subst s (vt_var cfg) (Variable idx)), st1)))"

lemma VTInjector_VisitExtents_None:
  "VTInjector_VisitExtents cfg es st = Inr (None, st') \<Longrightarrow> \<not> vt_loop_injected st'"
proof (induction es arbitrary: st)
  case Nil
  then show ?case by simp
next
  case (Cons e es)
  from Cons.prems obtain new_ext st1 where
    a: "VTInjector_VisitExpr cfg e st = Inr (new_ext, st1)"
    by (auto split: sum.splits prod.splits)
  show ?case
  proof (cases "visit_touched_var st1 \<and> \<not> vt_loop_injected st1")
    case True
    with Cons.prems a show ?thesis by auto
  next
    case False
    with Cons.prems a have "VTInjector_VisitExtents cfg es st1 = Inr (None, st')"
      by (auto split: sum.splits prod.splits option.splits)
    from Cons.IH[OF this] show ?thesis .
  qed
qed

lemma VTInjector_VisitExtents_None_entry:
  "VTInjector_VisitExpr cfg condition st = Inr (c', st1) \<Longrightarrow>
   VTInjector_VisitExtents cfg es st1 = Inr (None, st2) \<Longrightarrow> \<not> vt_loop_injected st"
  using VTInjector_VisitExpr_fields(1)[of cfg condition st c' st1]
    VTInjector_VisitExtents_fields[of cfg es st1 None st2]
    VTInjector_VisitExtents_None[of cfg es st1 st2]
  by (simp add: keeps_fields_def)

text \<open>
  The statement side of \<^verbatim>\<open>VTInjector\<close>: \<open>VTInjector_VisitStmt\<close> is the override of
  \<^verbatim>\<open>VisitStmt\<close> (it injects the loop when a child raised a flag),
  \<open>VTInjector_VisitStmt_op\<close> is the dispatch to the handlers \<^verbatim>\<open>VisitStmt_(const T* op)\<close>,
  and \<open>InjectVTLoop\<close> is the member of that name. A failed \<^verbatim>\<open>CHECK\<close> is the result
  \<open>Inl CheckFailed\<close>. Node identity (\<^verbatim>\<open>same_as\<close>) only decides whether a handler returns
  its input node or an equal rebuilt one; the model always rebuilds.
\<close>

function VTInjector_VisitStmt ::
    "(stmt \<Rightarrow> var \<Rightarrow> expr \<Rightarrow> stmt) \<Rightarrow> vt_config \<Rightarrow> stmt \<Rightarrow> vt_state \<Rightarrow> error + (stmt \<times> vt_state)"
  and VTInjector_VisitStmt_op ::
    "(stmt \<Rightarrow> var \<Rightarrow> expr \<Rightarrow> stmt) \<Rightarrow> vt_config \<Rightarrow> stmt \<Rightarrow> vt_state \<Rightarrow> error + (stmt \<times> vt_state)"
  and InjectVTLoop ::
    "(stmt \<Rightarrow> var \<Rightarrow> expr \<Rightarrow> stmt) \<Rightarrow> vt_config \<Rightarrow> stmt \<Rightarrow> bool \<Rightarrow> vt_state \<Rightarrow> error + (stmt \<times> vt_state)"
where
  "VTInjector_VisitStmt subst cfg s st =
     (if visit_touched_var st then Inl CheckFailed
      else (case VTInjector_VisitStmt_op subst cfg s st of
              Inl err \<Rightarrow> Inl err
            | Inr (s', st1) \<Rightarrow>
                if visit_touched_var st1 \<or> trigger_base_inject st1 then
                  (if \<not> vt_loop_injected st1 then InjectVTLoop subst cfg s' False st1
                   else Inr (s', st1\<lparr>visit_touched_var := False, trigger_base_inject := False\<rparr>))
                else Inr (s', st1)))"
| "InjectVTLoop subst cfg s before_mutation st =
     (if vt_loop_injected st then Inl CheckFailed
      else (let st1 = st\<lparr>visit_touched_var := False, trigger_base_inject := False,
                         vt_loop_injected := True\<rparr>
            in if before_mutation then
                 (case VTInjector_VisitStmt subst cfg s st1 of
                    Inl err \<Rightarrow> Inl err
                  | Inr (s', st2) \<Rightarrow> Inr (InjectVTLoop_emit subst cfg s' st2))
               else Inr (InjectVTLoop_emit subst cfg s st1)))"
| "VTInjector_VisitStmt_op subst cfg (Evaluate e) st =
     (case VTInjector_VisitExpr cfg e (st\<lparr>trigger_base_inject := \<not> allow_share cfg\<rparr>) of
        Inl err \<Rightarrow> Inl err
      | Inr (e', st1) \<Rightarrow> Inr (Evaluate e', st1))"
| "VTInjector_VisitStmt_op subst cfg (Store buffer_var val index predicate) st =
     (case VTInjector_VisitExpr cfg val st of
        Inl err \<Rightarrow> Inl err
      | Inr (val', st1) \<Rightarrow>
          (case VTInjector_VisitExpr cfg index st1 of
             Inl err \<Rightarrow> Inl err
           | Inr (index', st2) \<Rightarrow>
               (case VTInjector_VisitExpr cfg predicate st2 of
                  Inl err \<Rightarrow> Inl err
                | Inr (predicate', st3) \<Rightarrow>
                    (let st4 = (if buffer_var \<in> touched_var cfg
                                then st3\<lparr>visit_touched_var := True\<rparr> else st3);
                         st5 = st4\<lparr>trigger_base_inject := \<not> allow_share cfg\<rparr>
                     in (case alloc_remap st5 buffer_var of
                           Some alloc_extent \<Rightarrow>
                             Inr (Store buffer_var val' (RewriteIndex cfg index' alloc_extent)
                                    predicate', st5)
                         | None \<Rightarrow> Inr (Store buffer_var val' index' predicate', st5))))))"
| "VTInjector_VisitStmt_op subst cfg (AttrStmt node key val body) st =
     (case VTInjector_VisitExpr cfg val st of
        Inl err \<Rightarrow> Inl err
      | Inr (val', st1) \<Rightarrow>
          if visit_touched_var st1 \<and> \<not> vt_loop_injected st1 then
            InjectVTLoop subst cfg (AttrStmt node key val body) True st1
          else if \<not> allow_share cfg \<and> \<not> vt_loop_injected st1 \<and>
                  (key = attr_coproc_uop_scope \<or> key = attr_coproc_scope) then
            InjectVTLoop subst cfg (AttrStmt node key val body) True st1
          else (case VTInjector_VisitStmt subst cfg body st1 of
                  Inl err \<Rightarrow> Inl err
                | Inr (body', st2) \<Rightarrow> Inr (AttrStmt node key val' body', st2)))"
| "VTInjector_VisitStmt_op subst cfg (LetStmt v val body) st =
     (case VTInjector_VisitExpr cfg val st of
        Inl err \<Rightarrow> Inl err
      | Inr (val', st1) \<Rightarrow>
          if visit_touched_var st1 \<and> \<not> vt_loop_injected st1 then
            InjectVTLoop subst cfg (LetStmt v val body) True st1
          else (case VTInjector_VisitStmt subst cfg body (st1\<lparr>visit_touched_var := False\<rparr>) of
                  Inl err \<Rightarrow> Inl err
                | Inr (body', st2) \<Rightarrow> Inr (LetStmt v val' body', st2)))"
| "VTInjector_VisitStmt_op subst cfg (For loop_var min_e extent ft dev body) st =
     (if \<not> is_zero min_e then Inl CheckFailed
      else (case VTInjector_VisitExpr cfg extent st of
              Inl err \<Rightarrow> Inl err
            | Inr (extent', st1) \<Rightarrow>
                if visit_touched_var st1 \<and> \<not> vt_loop_injected st1 then
                  (case InjectVTLoop subst cfg (For loop_var min_e extent ft dev body) True st1 of
                     Inl err \<Rightarrow> Inl err
                   | Inr (s', st2) \<Rightarrow> Inr (s', st2\<lparr>max_loop_depth := max_loop_depth st2 + 1\<rparr>))
                else (case VTInjector_VisitStmt subst cfg body
                             (st1\<lparr>visit_touched_var := False\<rparr>) of
                        Inl err \<Rightarrow> Inl err
                      | Inr (body', st2) \<Rightarrow>
                          Inr (For loop_var min_e extent' ft dev body',
                               st2\<lparr>max_loop_depth := max_loop_depth st2 + 1\<rparr>))))"
| "VTInjector_VisitStmt_op subst cfg (IfThenElse condition then_case else_case) st =
     (case VTInjector_VisitExpr cfg condition st of
        Inl err \<Rightarrow> Inl err
      | Inr (condition', st1) \<Rightarrow>
          if visit_touched_var st1 \<and> \<not> vt_loop_injected st1 then
            InjectVTLoop subst cfg (IfThenElse condition then_case else_case) True st1
          else if max_loop_depth st1 \<noteq> 0 then Inl CheckFailed
          else (case VTInjector_VisitStmt subst cfg then_case
                       (st1\<lparr>visit_touched_var := False\<rparr>) of
                  Inl err \<Rightarrow> Inl err
                | Inr (then', st2) \<Rightarrow>
                    (case else_case of
                       None \<Rightarrow> Inr (IfThenElse condition' then' None, st2)
                     | Some e \<Rightarrow>
                         (case VTInjector_VisitStmt subst cfg e (st2\<lparr>max_loop_depth := 0\<rparr>) of
                            Inl err \<Rightarrow> Inl err
                          | Inr (else', st3) \<Rightarrow>
                              Inr (IfThenElse condition' then' (Some else'),
                                   st3\<lparr>max_loop_depth :=
                                         max (max_loop_depth st2) (max_loop_depth st3)\<rparr>)))))"
| "VTInjector_VisitStmt_op subst cfg (Block first rest) st =
     (if max_loop_depth st \<noteq> 0 then Inl CheckFailed
      else (case VTInjector_VisitStmt subst cfg first st of
              Inl err \<Rightarrow> Inl err
            | Inr (first', st1) \<Rightarrow>
                (case VTInjector_VisitStmt subst cfg rest (st1\<lparr>max_loop_depth := 0\<rparr>) of
                   Inl err \<Rightarrow> Inl err
                 | Inr (rest', st2) \<Rightarrow>
                     Inr (Block first' rest',
                          st2\<lparr>max_loop_depth := max (max_loop_depth st2) (max_loop_depth st1)\<rparr>))))"
| "VTInjector_VisitStmt_op subst cfg (Allocate buffer_var t extents condition body new_expr ff) st =
     (if defined new_expr \<and> \<not> vt_loop_injected st then
        InjectVTLoop subst cfg (Allocate buffer_var t extents condition body new_expr ff) True st
      else (case VTInjector_VisitExpr cfg condition st of
              Inl err \<Rightarrow> Inl err
            | Inr (condition', st1) \<Rightarrow>
                if visit_touched_var st1 \<and> \<not> vt_loop_injected st1 then
                  InjectVTLoop subst cfg
                    (Allocate buffer_var t extents condition body new_expr ff) True st1
                else (case VTInjector_VisitExtents cfg extents st1 of
                        Inl err \<Rightarrow> Inl err
                      | Inr (None, st2) \<Rightarrow>
                          InjectVTLoop subst cfg
                            (Allocate buffer_var t extents condition body new_expr ff) True st2
                      | Inr (Some extents', st2) \<Rightarrow>
                          if buffer_var \<in> touched_var cfg \<or> \<not> allow_share cfg then
                            (case alloc_stride extents t of
                               Inl err \<Rightarrow> Inl err
                             | Inr stride \<Rightarrow>
                                 (case dtype_of (hd extents) of
                                    None \<Rightarrow> Inl NullDeref
                                  | Some et \<Rightarrow>
                                      (case VTInjector_VisitStmt subst cfg body
                                              (st2\<lparr>visit_touched_var := False,
                                                   alloc_remap := (alloc_remap st2)(buffer_var \<mapsto> stride)\<rparr>) of
                                         Inl err \<Rightarrow> Inl err
                                       | Inr (body', st3) \<Rightarrow>
                                           Inr (Allocate buffer_var t
                                                  (make_const et (num_threads cfg) # extents')
                                                  condition' body' new_expr ff, st3))))
                          else (case VTInjector_VisitStmt subst cfg body
                                       (st2\<lparr>visit_touched_var := False\<rparr>) of
                                  Inl err \<Rightarrow> Inl err
                                | Inr (body', st3) \<Rightarrow>
                                    Inr (Allocate buffer_var t extents' condition' body' new_expr ff,
                                         st3)))))"
| "VTInjector_VisitStmt_op subst cfg (AssertStmt condition message body) st =
     (case VTInjector_VisitExpr cfg condition st of
        Inl err \<Rightarrow> Inl err
      | Inr (condition', st1) \<Rightarrow>
          (case VTInjector_VisitExpr cfg message st1 of
             Inl err \<Rightarrow> Inl err
           | Inr (message', st2) \<Rightarrow>
               (case VTInjector_VisitStmt subst cfg body st2 of
                  Inl err \<Rightarrow> Inl err
                | Inr (body', st3) \<Rightarrow> Inr (AssertStmt condition' message' body', st3))))"
  by pat_completeness auto

termination
  apply (relation "measure (\<lambda>x. case x of
      Inl (subst, cfg, s, st) \<Rightarrow> 6 * size s + (if vt_loop_injected st then 0 else 3) + 1
    | Inr (Inl (subst, cfg, s, st)) \<Rightarrow> 6 * size s + (if vt_loop_injected st then 0 else 3)
    | Inr (Inr (subst, cfg, s, b, st)) \<Rightarrow> (if b then 6 * size s + 2 else 0))")
  apply (auto dest: VTInjector_VisitExpr_fields(1) VTInjector_VisitExtents_fields
      VTInjector_VisitExtents_None VTInjector_VisitExtents_None_entry simp: keeps_fields_def)
  done

declare VTInjector_VisitStmt.simps [simp del]
declare InjectVTLoop.simps [simp del]
declare VTInjector_VisitStmt_op.simps [simp del]


text \<open>Modelled from the spec: \<^verbatim>\<open>substitute(stmt, {var -> expr})\<close>, the substitution of a
  variable in a statement (its code is not part of the two files). The theorems below
  hold for every substitution function; this one instantiates them at concrete inputs.\<close>

fun Substitute_expr :: "var \<Rightarrow> expr \<Rightarrow> expr \<Rightarrow> expr" where
  "Substitute_expr v r (Variable w) = (if w = v then r else Variable w)"
| "Substitute_expr v r (Cast t e) = Cast t (Substitute_expr v r e)"
| "Substitute_expr v r (Add a b) = Add (Substitute_expr v r a) (Substitute_expr v r b)"
| "Substitute_expr v r (Mul a b) = Mul (Substitute_expr v r a) (Substitute_expr v r b)"
| "Substitute_expr v r (Div a b) = Div (Substitute_expr v r a) (Substitute_expr v r b)"
| "Substitute_expr v r (GE a b) = GE (Substitute_expr v r a) (Substitute_expr v r b)"
| "Substitute_expr v r (LT a b) = LT (Substitute_expr v r a) (Substitute_expr v r b)"
| "Substitute_expr v r (And a b) = And (Substitute_expr v r a) (Substitute_expr v r b)"
| "Substitute_expr v r (Ramp base stride n) =
     Ramp (Substitute_expr v r base) (Substitute_expr v r stride) n"
| "Substitute_expr v r (Load t b index predicate) =
     Load t b (Substitute_expr v r index) (Substitute_expr v r predicate)"
| "Substitute_expr v r (Call t name args ct) = Call t name (map (Substitute_expr v r) args) ct"
| "Substitute_expr v r Undefined = Undefined"
| "Substitute_expr v r (IntImm t n) = IntImm t n"
| "Substitute_expr v r (StringImm s) = StringImm s"

fun Substitute :: "stmt \<Rightarrow> var \<Rightarrow> expr \<Rightarrow> stmt" where
  "Substitute (LetStmt w val body) v r = LetStmt w (Substitute_expr v r val) (Substitute body v r)"
| "Substitute (AttrStmt node key val body) v r =
     AttrStmt node key (Substitute_expr v r val) (Substitute body v r)"
| "Substitute (AssertStmt c msg body) v r =
     AssertStmt (Substitute_expr v r c) (Substitute_expr v r msg) (Substitute body v r)"
| "Substitute (Store b val index predicate) v r =
     Store b (Substitute_expr v r val) (Substitute_expr v r index) (Substitute_expr v r predicate)"
| "Substitute (Allocate b t extents c body new_expr ff) v r =
     Allocate b t (map (Substitute_expr v r) extents) (Substitute_expr v r c)
       (Substitute body v r) (Substitute_expr v r new_expr) ff"
| "Substitute (For w mn ext ft dev body) v r =
     For w (Substitute_expr v r mn) (Substitute_expr v r ext) ft dev (Substitute body v r)"
| "Substitute (IfThenElse c t e) v r =
     IfThenElse (Substitute_expr v r c) (Substitute t v r)
       (case e of None \<Rightarrow> None | Some s \<Rightarrow> Some (Substitute s v r))"
| "Substitute (Block first rest) v r = Block (Substitute first v r) (Substitute rest v r)"
| "Substitute (Evaluate e) v r = Evaluate (Substitute_expr v r e)"

section \<open>Virtual threads: the touch analysis\<close>

text \<open>The fields of \<^verbatim>\<open>ExprTouched\<close> that change during a walk. Its two constructor
  arguments, the touched set and \<open>check_write\<close>, are parameters of the walk.\<close>

record et_state =
  expr_touched :: bool
  used_vars :: "var list"
  write_vars :: "var list"

definition ExprTouched_init :: et_state where
  "ExprTouched_init = \<lparr>expr_touched = False, used_vars = [], write_vars = []\<rparr>"

definition HandleUseVar :: "var set \<Rightarrow> var \<Rightarrow> et_state \<Rightarrow> et_state" where
  "HandleUseVar touched v tc =
     (let tc1 = (if v \<in> touched then tc\<lparr>expr_touched := True\<rparr> else tc)
      in if \<not> expr_touched tc1 then tc1\<lparr>used_vars := used_vars tc1 @ [v]\<rparr> else tc1)"

definition HandleWriteVar :: "var \<Rightarrow> et_state \<Rightarrow> et_state" where
  "HandleWriteVar v tc = tc\<lparr>write_vars := write_vars tc @ [v]\<rparr>"

text \<open>
  \<open>ExprTouched_VisitExpr\<close> is the override of \<^verbatim>\<open>VisitExpr\<close> with its early stop,
  \<open>ExprTouched_VisitExpr_op\<close> the dispatch to the handlers. In the handler of
  \<^verbatim>\<open>tvm_access_ptr\<close>, a mask that is not an integer literal and a buffer that is not a
  variable fail a \<^verbatim>\<open>CHECK\<close>; reading \<^verbatim>\<open>args[4]\<close> of a shorter argument list is an
  out-of-range read. Bit 0 of the mask is \<open>rw_mask mod 2\<close>, bit 1 is
  \<open>(rw_mask div 2) mod 2\<close>. The other nodes take the default recursion of the visitor
  base class (children in source order).
\<close>

fun ExprTouched_VisitExpr :: "var set \<Rightarrow> bool \<Rightarrow> expr \<Rightarrow> et_state \<Rightarrow> error + et_state"
and ExprTouched_VisitExpr_op :: "var set \<Rightarrow> bool \<Rightarrow> expr \<Rightarrow> et_state \<Rightarrow> error + et_state"
and ExprTouched_VisitArgs :: "var set \<Rightarrow> bool \<Rightarrow> expr list \<Rightarrow> et_state \<Rightarrow> error + et_state"
where
  "ExprTouched_VisitExpr touched check_write n tc =
     (if expr_touched tc \<and> \<not> check_write then Inr tc
      else ExprTouched_VisitExpr_op touched check_write n tc)"
| "ExprTouched_VisitExpr_op touched check_write (Load t buffer_var index predicate) tc =
     (case ExprTouched_VisitExpr touched check_write index (HandleUseVar touched buffer_var tc) of
        Inl err \<Rightarrow> Inl err
      | Inr tc1 \<Rightarrow> ExprTouched_VisitExpr touched check_write predicate tc1)"
| "ExprTouched_VisitExpr_op touched check_write (Variable v) tc = Inr (HandleUseVar touched v tc)"
| "ExprTouched_VisitExpr_op touched check_write (Call t name args ct) tc =
     (if is_intrinsic (Call t name args ct) tvm_access_ptr then
        (case args of
           a0 # a1 # a2 # a3 # a4 # rest \<Rightarrow>
             (case a4 of
                IntImm mt rw_mask \<Rightarrow>
                  (case a1 of
                     Variable buffer_var \<Rightarrow>
                       (let tc1 = (if rw_mask mod 2 = 1
                                   then HandleUseVar touched buffer_var tc else tc);
                            tc2 = (if (rw_mask div 2) mod 2 = 1
                                   then HandleWriteVar buffer_var tc1 else tc1)
                        in ExprTouched_VisitExpr touched check_write a2 tc2)
                   | _ \<Rightarrow> Inl CheckFailed)
              | _ \<Rightarrow> Inl CheckFailed)
         | _ \<Rightarrow> Inl NullDeref)
      else ExprTouched_VisitArgs touched check_write args tc)"
| "ExprTouched_VisitExpr_op touched check_write (Cast t e) tc =
     ExprTouched_VisitExpr touched check_write e tc"
| "ExprTouched_VisitExpr_op touched check_write (Add a b) tc =
     (case ExprTouched_VisitExpr touched check_write a tc of
        Inl err \<Rightarrow> Inl err
      | Inr tc1 \<Rightarrow> ExprTouched_VisitExpr touched check_write b tc1)"
| "ExprTouched_VisitExpr_op touched check_write (Mul a b) tc =
     (case ExprTouched_VisitExpr touched check_write a tc of
        Inl err \<Rightarrow> Inl err
      | Inr tc1 \<Rightarrow> ExprTouched_VisitExpr touched check_write b tc1)"
| "ExprTouched_VisitExpr_op touched check_write (Div a b) tc =
     (case ExprTouched_VisitExpr touched check_write a tc of
        Inl err \<Rightarrow> Inl err
      | Inr tc1 \<Rightarrow> ExprTouched_VisitExpr touched check_write b tc1)"
| "ExprTouched_VisitExpr_op touched check_write (GE a b) tc =
     (case ExprTouched_VisitExpr touched check_write a tc of
        Inl err \<Rightarrow> Inl err
      | Inr tc1 \<Rightarrow> ExprTouched_VisitExpr touched check_write b tc1)"
| "ExprTouched_VisitExpr_op touched check_write (LT a b) tc =
     (case ExprTouched_VisitExpr touched check_write a tc of
        Inl err \<Rightarrow> Inl err
      | Inr tc1 \<Rightarrow> ExprTouched_VisitExpr touched check_write b tc1)"
| "ExprTouched_VisitExpr_op touched check_write (And a b) tc =
     (case ExprTouched_VisitExpr touched check_write a tc of
        Inl err \<Rightarrow> Inl err
      | Inr tc1 \<Rightarrow> ExprTouched_VisitExpr touched check_write b tc1)"
| "ExprTouched_VisitExpr_op touched check_write (Ramp base stride n) tc =
     (case ExprTouched_VisitExpr touched check_write base tc of
        Inl err \<Rightarrow> Inl err
      | Inr tc1 \<Rightarrow> ExprTouched_VisitExpr touched check_write stride tc1)"
| "ExprTouched_VisitExpr_op touched check_write Undefined tc = Inr tc"
| "ExprTouched_VisitExpr_op touched check_write (IntImm t n) tc = Inr tc"
| "ExprTouched_VisitExpr_op touched check_write (StringImm s) tc = Inr tc"
| "ExprTouched_VisitArgs touched check_write [] tc = Inr tc"
| "ExprTouched_VisitArgs touched check_write (e # es) tc =
     (case ExprTouched_VisitExpr touched check_write e tc of
        Inl err \<Rightarrow> Inl err
      | Inr tc1 \<Rightarrow> ExprTouched_VisitArgs touched check_write es tc1)"

text \<open>
  The fields of \<^verbatim>\<open>VarTouchedAnalysis\<close>. The unordered set \<^verbatim>\<open>touched_var_\<close> is the list
  of its elements in the order of insertion (no element twice); the unordered map
  \<^verbatim>\<open>affect_\<close> is an association list, a key without an entry standing for the empty
  vector that \<^verbatim>\<open>operator[]\<close> would create.
\<close>

record vta_state =
  vta_touched :: "var list"
  vta_affect :: "(var \<times> var list) list"

fun affect_push :: "var \<Rightarrow> var \<Rightarrow> (var \<times> var list) list \<Rightarrow> (var \<times> var list) list" where
  "affect_push r v [] = [(r, [v])]"
| "affect_push r v ((k, vs) # m) =
     (if k = r then (k, vs @ [v]) # m else (k, vs) # affect_push r v m)"

definition affect_get :: "(var \<times> var list) list \<Rightarrow> var \<Rightarrow> var list" where
  "affect_get m r = (case map_of m r of None \<Rightarrow> [] | Some vs \<Rightarrow> vs)"

text \<open>\<open>Record_touch\<close> is \<^verbatim>\<open>VarTouchedAnalysis::Record\<close>.\<close>

definition Record_touch :: "var \<Rightarrow> et_state \<Rightarrow> vta_state \<Rightarrow> vta_state" where
  "Record_touch v tc st =
     (if v \<in> set (vta_touched st) then st
      else if expr_touched tc then st\<lparr>vta_touched := vta_touched st @ [v]\<rparr>
      else st\<lparr>vta_affect :=
                foldl (\<lambda>m r. if r \<noteq> v then affect_push r v m else m)
                  (vta_affect st) (used_vars tc)\<rparr>)"

text \<open>
  The statement handlers of \<^verbatim>\<open>VarTouchedAnalysis\<close>; the statements without a handler of
  their own take the default recursion of \<^verbatim>\<open>StmtVisitor\<close>, which visits the statement
  children only.
\<close>

fun VarTouchedAnalysis_VisitStmt :: "stmt \<Rightarrow> vta_state \<Rightarrow> error + vta_state" where
  "VarTouchedAnalysis_VisitStmt (LetStmt v val body) st =
     (case ExprTouched_VisitExpr (set (vta_touched st)) False val ExprTouched_init of
        Inl err \<Rightarrow> Inl err
      | Inr tc \<Rightarrow> VarTouchedAnalysis_VisitStmt body (Record_touch v tc st))"
| "VarTouchedAnalysis_VisitStmt (Store buffer_var val index predicate) st =
     (case ExprTouched_VisitExpr (set (vta_touched st)) False val ExprTouched_init of
        Inl err \<Rightarrow> Inl err
      | Inr tc1 \<Rightarrow>
          (case ExprTouched_VisitExpr (set (vta_touched st)) False index tc1 of
             Inl err \<Rightarrow> Inl err
           | Inr tc \<Rightarrow> Inr (Record_touch buffer_var tc st)))"
| "VarTouchedAnalysis_VisitStmt (For loop_var min_e extent ft dev body) st =
     (case ExprTouched_VisitExpr (set (vta_touched st)) False min_e ExprTouched_init of
        Inl err \<Rightarrow> Inl err
      | Inr tc1 \<Rightarrow>
          (case ExprTouched_VisitExpr (set (vta_touched st)) False extent tc1 of
             Inl err \<Rightarrow> Inl err
           | Inr tc \<Rightarrow> VarTouchedAnalysis_VisitStmt body (Record_touch loop_var tc st)))"
| "VarTouchedAnalysis_VisitStmt (Evaluate e) st =
     (case ExprTouched_VisitExpr (set (vta_touched st)) True e ExprTouched_init of
        Inl err \<Rightarrow> Inl err
      | Inr tc \<Rightarrow> Inr (foldl (\<lambda>s v. Record_touch v tc s) st (write_vars tc)))"
| "VarTouchedAnalysis_VisitStmt (Allocate buffer_var t extents condition body new_expr ff) st =
     (case ExprTouched_VisitArgs (set (vta_touched st)) False extents ExprTouched_init of
        Inl err \<Rightarrow> Inl err
      | Inr tc1 \<Rightarrow>
          (case ExprTouched_VisitExpr (set (vta_touched st)) False condition tc1 of
             Inl err \<Rightarrow> Inl err
           | Inr tc2 \<Rightarrow>
               (case (if defined new_expr
                      then ExprTouched_VisitExpr (set (vta_touched st)) False new_expr tc2
                      else Inr tc2) of
                  Inl err \<Rightarrow> Inl err
                | Inr tc \<Rightarrow> VarTouchedAnalysis_VisitStmt body (Record_touch buffer_var tc st))))"
| "VarTouchedAnalysis_VisitStmt (AttrStmt node key val body) st =
     VarTouchedAnalysis_VisitStmt body st"
| "VarTouchedAnalysis_VisitStmt (AssertStmt c msg body) st =
     VarTouchedAnalysis_VisitStmt body st"
| "VarTouchedAnalysis_VisitStmt (IfThenElse c t e) st =
     (case VarTouchedAnalysis_VisitStmt t st of
        Inl err \<Rightarrow> Inl err
      | Inr st1 \<Rightarrow>
          (case e of None \<Rightarrow> Inr st1 | Some s \<Rightarrow> VarTouchedAnalysis_VisitStmt s st1))"
| "VarTouchedAnalysis_VisitStmt (Block first rest) st =
     (case VarTouchedAnalysis_VisitStmt first st of
        Inl err \<Rightarrow> Inl err
      | Inr st1 \<Rightarrow> VarTouchedAnalysis_VisitStmt rest st1)"

text \<open>
  The worklist loop of \<^verbatim>\<open>TouchedVar\<close>. The vector \<^verbatim>\<open>pending\<close> is a list with its back
  at the head (\<^verbatim>\<open>back\<close> is the head, \<^verbatim>\<open>pop_back\<close> the tail, \<^verbatim>\<open>push_back\<close> a cons).
  \<open>TouchedVar_inner\<close> is the inner loop over \<^verbatim>\<open>affect_[v]\<close>.
\<close>

fun TouchedVar_inner :: "var list \<Rightarrow> var list \<times> var list \<Rightarrow> var list \<times> var list" where
  "TouchedVar_inner [] (pending, touched) = (pending, touched)"
| "TouchedVar_inner (r # rs) (pending, touched) =
     TouchedVar_inner rs
       (if r \<notin> set touched then (r # pending, touched @ [r]) else (pending, touched))"

definition affect_targets :: "(var \<times> var list) list \<Rightarrow> var set" where
  "affect_targets m = (\<Union>p \<in> set m. set (snd p))"

lemma affect_get_targets: "set (affect_get m v) \<subseteq> affect_targets m"
proof (cases "map_of m v")
  case None
  then show ?thesis by (simp add: affect_get_def)
next
  case (Some vs)
  then have "(v, vs) \<in> set m" by (rule map_of_SomeD)
  then have "set vs \<subseteq> affect_targets m" by (force simp: affect_targets_def)
  with Some show ?thesis by (simp add: affect_get_def)
qed

lemma TouchedVar_inner_touched:
  "TouchedVar_inner rs (p, t) = (p', t') \<Longrightarrow> set t' = set t \<union> set rs"
  by (induction rs arbitrary: p t) (auto split: if_splits)

lemma TouchedVar_inner_measure:
  "TouchedVar_inner rs (p, t) = (p', t') \<Longrightarrow> set rs \<subseteq> T \<Longrightarrow> finite T \<Longrightarrow>
   card (T - set t') + length p' = card (T - set t) + length p"
proof (induction rs arbitrary: p t)
  case Nil
  then show ?case by simp
next
  case (Cons r rs)
  show ?case
  proof (cases "r \<in> set t")
    case True
    with Cons show ?thesis by simp
  next
    case False
    with Cons.prems have step: "TouchedVar_inner rs (r # p, t @ [r]) = (p', t')" by simp
    from Cons.prems have rT: "r \<in> T" and sub: "set rs \<subseteq> T" by simp_all
    from Cons.IH[OF step sub Cons.prems(3)]
    have eq: "card (T - set t') + length p' = card (T - set (t @ [r])) + length (r # p)" .
    have "T - set (t @ [r]) = (T - set t) - {r}" by auto
    moreover have "r \<in> T - set t" using rT False by simp
    moreover have "finite (T - set t)" using Cons.prems(3) by simp
    ultimately have "card (T - set (t @ [r])) + 1 = card (T - set t)"
      by (metis Suc_eq_plus1 card_Suc_Diff1)
    with eq show ?thesis by simp
  qed
qed

lemma TouchedVar_inner_decreases:
  assumes "TouchedVar_inner (affect_get affect v) (pending, touched) = (pending', touched')"
  shows "2 * card (affect_targets affect - set touched') + length pending'
         < 2 * card (affect_targets affect - set touched) + length (v # pending)"
proof -
  have fin: "finite (affect_targets affect)" by (simp add: affect_targets_def)
  from TouchedVar_inner_measure[OF assms affect_get_targets fin]
  have "card (affect_targets affect - set touched') + length pending' =
        card (affect_targets affect - set touched) + length pending" .
  moreover have "card (affect_targets affect - set touched') \<le>
        card (affect_targets affect - set touched)"
    using TouchedVar_inner_touched[OF assms] fin by (intro card_mono) auto
  ultimately show ?thesis by simp
qed

function TouchedVar_loop :: "(var \<times> var list) list \<Rightarrow> var list \<Rightarrow> var list \<Rightarrow> var list" where
  "TouchedVar_loop affect [] touched = touched"
| "TouchedVar_loop affect (v # pending) touched =
     (case TouchedVar_inner (affect_get affect v) (pending, touched) of
        (pending', touched') \<Rightarrow> TouchedVar_loop affect pending' touched')"
  by pat_completeness auto
termination
  apply (relation "measure (\<lambda>(affect, pending, touched).
          2 * card (affect_targets affect - set touched) + length pending)")
   apply simp
  apply (simp only: in_measure prod.case)
  apply (drule sym)
  apply (frule TouchedVar_inner_decreases)
  apply simp
  done

declare TouchedVar_loop.simps [simp del]

text \<open>\<^verbatim>\<open>VarTouchedAnalysis::TouchedVar\<close>: seed the set with the variable, walk the statement,
  close the set under the recorded edges. The vector \<^verbatim>\<open>pending\<close> starts as a copy of the
  set.\<close>

definition TouchedVar :: "stmt \<Rightarrow> var \<Rightarrow> error + var set" where
  "TouchedVar s v =
     (case VarTouchedAnalysis_VisitStmt s \<lparr>vta_touched = [v], vta_affect = []\<rparr> of
        Inl err \<Rightarrow> Inl err
      | Inr st \<Rightarrow>
          Inr (set (TouchedVar_loop (vta_affect st) (rev (vta_touched st)) (vta_touched st))))"

section \<open>Bounds checker: claims about the shape table\<close>

text \<open>The shape that the spec describes: one factor \<open>lanes * uint64(extent)\<close> per
  dimension, multiplied from the left.\<close>

definition lane_extent :: "int \<Rightarrow> expr \<Rightarrow> expr" where
  "lane_extent l e = Mul (IntImm (DT_UInt 64) l) (Cast (DT_UInt 64) e)"

definition shape_product :: "int \<Rightarrow> expr list \<Rightarrow> expr" where
  "shape_product l es = foldl Mul (lane_extent l (hd es)) (map (lane_extent l) (tl es))"

lemma Update_scalarize_foldl:
  "Update_scalarize l shape es = foldl Mul shape (map (lane_extent l) es)"
  by (induction es arbitrary: shape) (simp_all add: lane_extent_def make_const_def)

text \<open>
  Claim C7. When \<^verbatim>\<open>Update\<close> changes the entry of a buffer, the extent list is not empty
  and the new entry is the product \<open>lanes * uint64(extent[0]) * (lanes * uint64(extent[1])) * ...\<close>:
  every extent is cast to \<open>uint64\<close> and multiplied by the lane count of the allocation's type.
\<close>

theorem Update_shape_product:
  "Update m b es t = Inr m' \<Longrightarrow> m' b \<noteq> m b \<Longrightarrow>
     es \<noteq> [] \<and> m' = m(b \<mapsto> shape_product (lanes t) es)"
  by (cases es)
     (auto simp: Update_def shape_product_def Update_scalarize_foldl lane_extent_def make_const_def
           split: sum.splits if_splits)

theorem Update_shape_product_witness:
  "Update [Var ''A'' DT_Handle 0 \<mapsto> IntImm (DT_Int 32) 128] (Var ''A'' DT_Handle 0)
      [IntImm (DT_Int 32) 4, IntImm (DT_Int 32) 8] (DataType kFloat 32 2)
    = Inr [Var ''A'' DT_Handle 0 \<mapsto>
            Mul (Mul (IntImm (DT_UInt 64) 2) (Cast (DT_UInt 64) (IntImm (DT_Int 32) 4)))
                (Mul (IntImm (DT_UInt 64) 2) (Cast (DT_UInt 64) (IntImm (DT_Int 32) 8)))]
   \<and> shape_product 2 [IntImm (DT_Int 32) 4, IntImm (DT_Int 32) 8] =
       Mul (Mul (IntImm (DT_UInt 64) 2) (Cast (DT_UInt 64) (IntImm (DT_Int 32) 4)))
           (Mul (IntImm (DT_UInt 64) 2) (Cast (DT_UInt 64) (IntImm (DT_Int 32) 8)))"
  using Update_shape_product [of "[Var ''A'' DT_Handle 0 \<mapsto> IntImm (DT_Int 32) 128]" "Var ''A'' DT_Handle 0"
      "[IntImm (DT_Int 32) 4, IntImm (DT_Int 32) 8]" "DataType kFloat 32 2"
      "[Var ''A'' DT_Handle 0 \<mapsto>
            Mul (Mul (IntImm (DT_UInt 64) 2) (Cast (DT_UInt 64) (IntImm (DT_Int 32) 4)))
                (Mul (IntImm (DT_UInt 64) 2) (Cast (DT_UInt 64) (IntImm (DT_Int 32) 8)))]"]
  by (simp add: Update_def defined_def is_scalar_def DT_Int_def DT_UInt_def make_const_def
        shape_product_def lane_extent_def)

text \<open>
  Claim C6. The update is to be skipped whenever some extent is undefined. With a defined
  first extent and an undefined second one, the sanity loop passes its test of
  \<^verbatim>\<open>new_shape[0].defined()\<close> and reads the type of the null second extent: the handler
  fails instead of skipping the update.
\<close>

theorem Update_undefined_extent_crash:
  "Update [Var ''A'' DT_Handle 0 \<mapsto> IntImm (DT_Int 32) 128] (Var ''A'' DT_Handle 0)
      [IntImm (DT_Int 32) 4, Undefined] (DataType kFloat 32 1) = Inl NullDeref"
  by (simp add: Update_def defined_def is_scalar_def DT_Int_def)

section \<open>Bounds checker: claims about stores\<close>

definition ex_A :: var where "ex_A = Var ''A'' DT_Handle 0"
definition ex_i :: expr where "ex_i = Variable (Var ''i'' (DT_Int 32) 1)"
definition ex_j :: expr where "ex_j = Variable (Var ''j'' (DT_Int 32) 2)"
definition ex_true :: expr where "ex_true = IntImm (DataType kUInt 1 1) 1"
definition ex_f32 :: dtype where "ex_f32 = DataType kFloat 32 1"

subsection \<open>What the expression recursion of the checker preserves\<close>

text \<open>An expression without a null handle at any child position.\<close>

fun null_free :: "expr \<Rightarrow> bool" where
  "null_free Undefined = False"
| "null_free (Variable v) = True"
| "null_free (IntImm t n) = True"
| "null_free (StringImm s) = True"
| "null_free (Cast t e) = null_free e"
| "null_free (Add a b) = (null_free a \<and> null_free b)"
| "null_free (Mul a b) = (null_free a \<and> null_free b)"
| "null_free (Div a b) = (null_free a \<and> null_free b)"
| "null_free (GE a b) = (null_free a \<and> null_free b)"
| "null_free (LT a b) = (null_free a \<and> null_free b)"
| "null_free (And a b) = (null_free a \<and> null_free b)"
| "null_free (Ramp base stride n) = (null_free base \<and> null_free stride)"
| "null_free (Load t b index predicate) = (null_free index \<and> null_free predicate)"
| "null_free (Call t name args ct) = list_all null_free args"

definition bc_step :: "bc_state \<Rightarrow> bc_state \<Rightarrow> bool" where
  "bc_step st st' =
     (mem_to_shape st' = mem_to_shape st \<and> process_store st' = process_store st \<and>
      (unsafe_rewritten st \<longrightarrow> unsafe_rewritten st'))"

lemma bc_step_refl: "bc_step st st"
  by (simp add: bc_step_def)

lemma bc_step_trans: "bc_step st st1 \<Longrightarrow> bc_step st1 st2 \<Longrightarrow> bc_step st st2"
  by (simp add: bc_step_def)

lemma bc_step_Collect: "CanInstrument st index b \<Longrightarrow> bc_step st (Collect_bound index b st)"
  by (auto simp: bc_step_def CanInstrument_def Collect_bound_def)

lemma bc_step_unsafe: "bc_step st (st\<lparr>unsafe_rewritten := True\<rparr>)"
  by (simp add: bc_step_def)

lemma bc_step_Load:
  "bc_step st (if CanInstrument st index b then Collect_bound index b st else st)"
  by (simp add: bc_step_refl bc_step_Collect)

lemma bc_step_Call:
  "bc_step st (if c then st\<lparr>unsafe_rewritten := True\<rparr> else st)"
  by (simp add: bc_step_refl bc_step_unsafe)

lemma BoundChecker_VisitExpr_step:
  "BoundChecker_VisitExpr e st = Inr st' \<Longrightarrow> bc_step st st'"
  "BoundChecker_VisitArgs es st = Inr st' \<Longrightarrow> bc_step st st'"
proof (induction e st and es st arbitrary: st' and st'
    rule: BoundChecker_VisitExpr_BoundChecker_VisitArgs.induct)
  case (1 t buffer_var index predicate st)
  define st1 where
    "st1 = (if CanInstrument st index buffer_var then Collect_bound index buffer_var st else st)"
  from "1.prems" obtain st2 where
    a: "BoundChecker_VisitExpr index st1 = Inr st2" and
    b: "BoundChecker_VisitExpr predicate st2 = Inr st'"
    by (auto simp: Let_def st1_def split: sum.splits)
  have "bc_step st st1" unfolding st1_def by (rule bc_step_Load)
  moreover have "bc_step st1 st2" using "1.IH"(1)[OF st1_def a] .
  moreover have "bc_step st2 st'" using "1.IH"(2)[OF st1_def a b] .
  ultimately show ?case by (blast intro: bc_step_trans)
next
  case (2 t name args ct st)
  define st1 where
    "st1 = (if process_store st \<and> is_intrinsic (Call t name args ct) tvm_if_then_else
            then st\<lparr>unsafe_rewritten := True\<rparr> else st)"
  from "2.prems" have a: "BoundChecker_VisitArgs args st1 = Inr st'"
    by (simp add: Let_def st1_def del: is_intrinsic.simps)
  have "bc_step st st1" unfolding st1_def by (rule bc_step_Call)
  moreover have "bc_step st1 st'" using "2.IH"[OF st1_def a] .
  ultimately show ?case by (blast intro: bc_step_trans)
qed (auto split: sum.splits intro: bc_step_refl bc_step_trans)

lemma BoundChecker_VisitExpr_null:
  "(\<not> null_free e \<longrightarrow> BoundChecker_VisitExpr e st = Inl NullDeref) \<and>
   (null_free e \<longrightarrow> (\<exists>st'. BoundChecker_VisitExpr e st = Inr st'))"
  "(\<not> list_all null_free es \<longrightarrow> BoundChecker_VisitArgs es st = Inl NullDeref) \<and>
   (list_all null_free es \<longrightarrow> (\<exists>st'. BoundChecker_VisitArgs es st = Inr st'))"
proof (induction e st and es st rule: BoundChecker_VisitExpr_BoundChecker_VisitArgs.induct)
  case (1 t buffer_var index predicate st)
  define st1 where
    "st1 = (if CanInstrument st index buffer_var then Collect_bound index buffer_var st else st)"
  show ?case
    using "1.IH"(1)[OF st1_def] "1.IH"(2)[OF st1_def]
    unfolding BoundChecker_VisitExpr.simps Let_def st1_def[symmetric] null_free.simps
    by (auto split: sum.splits if_splits)
next
  case (2 t name args ct st)
  define st1 where
    "st1 = (if process_store st \<and> is_intrinsic (Call t name args ct) tvm_if_then_else
            then st\<lparr>unsafe_rewritten := True\<rparr> else st)"
  show ?case
    using "2.IH"[OF st1_def]
    unfolding BoundChecker_VisitExpr.simps Let_def st1_def[symmetric] null_free.simps
    by simp
next
  case (4 a b st)
  then show ?case by (auto split: sum.splits if_splits)
next
  case (5 a b st)
  then show ?case by (auto split: sum.splits if_splits)
next
  case (6 a b st)
  then show ?case by (auto split: sum.splits if_splits)
next
  case (7 a b st)
  then show ?case by (auto split: sum.splits if_splits)
next
  case (8 a b st)
  then show ?case by (auto split: sum.splits if_splits)
next
  case (9 a b st)
  then show ?case by (auto split: sum.splits if_splits)
next
  case (10 base stride n st)
  then show ?case by (auto split: sum.splits if_splits)
next
  case (16 e es st)
  then show ?case by (auto split: sum.splits if_splits)
qed simp_all

lemma BoundChecker_VisitExpr_fails:
  "\<not> null_free e \<Longrightarrow> BoundChecker_VisitExpr e st = Inl NullDeref"
  using BoundChecker_VisitExpr_null(1)[of e st] by simp

lemma BoundChecker_VisitExpr_returns:
  assumes "null_free e"
  obtains st' where "BoundChecker_VisitExpr e st = Inr st'" "bc_step st st'"
  using BoundChecker_VisitExpr_null(1)[of e st] BoundChecker_VisitExpr_step(1)[of e st] assms
  by blast



text \<open>An expression contains a call of the intrinsic \<open>s\<close>.\<close>

fun contains_call :: "string \<Rightarrow> expr \<Rightarrow> bool" where
  "contains_call s (Call t name args ct) =
     (is_intrinsic (Call t name args ct) s \<or> list_ex (contains_call s) args)"
| "contains_call s (Load t b index predicate) = (contains_call s index \<or> contains_call s predicate)"
| "contains_call s (Cast t e) = contains_call s e"
| "contains_call s (Add a b) = (contains_call s a \<or> contains_call s b)"
| "contains_call s (Mul a b) = (contains_call s a \<or> contains_call s b)"
| "contains_call s (Div a b) = (contains_call s a \<or> contains_call s b)"
| "contains_call s (GE a b) = (contains_call s a \<or> contains_call s b)"
| "contains_call s (LT a b) = (contains_call s a \<or> contains_call s b)"
| "contains_call s (And a b) = (contains_call s a \<or> contains_call s b)"
| "contains_call s (Ramp base stride n) = (contains_call s base \<or> contains_call s stride)"
| "contains_call s Undefined = False"
| "contains_call s (Variable v) = False"
| "contains_call s (IntImm t n) = False"
| "contains_call s (StringImm x) = False"

lemma unsafe_seq:
  assumes a: "BoundChecker_VisitExpr x st = Inr st1"
    and b: "BoundChecker_VisitExpr y st1 = Inr st'"
    and p: "process_store st"
    and ih1: "cx \<Longrightarrow> unsafe_rewritten st1"
    and ih2: "process_store st1 \<Longrightarrow> cy \<Longrightarrow> unsafe_rewritten st'"
    and c: "cx \<or> cy"
  shows "unsafe_rewritten st'"
proof -
  from BoundChecker_VisitExpr_step(1)[OF a] p have p1: "process_store st1"
    by (simp add: bc_step_def)
  from BoundChecker_VisitExpr_step(1)[OF b] have m: "unsafe_rewritten st1 \<Longrightarrow> unsafe_rewritten st'"
    by (simp add: bc_step_def)
  from c show ?thesis
  proof
    assume cx
    then show ?thesis using ih1 m by blast
  next
    assume cy
    then show ?thesis using ih2 p1 by blast
  qed
qed

text \<open>Inside a store, a call of \<^verbatim>\<open>tvm_if_then_else\<close> anywhere in a visited expression
  sets \<open>unsafe_rewritten\<close>.\<close>

lemma BoundChecker_VisitExpr_sets_unsafe:
  "BoundChecker_VisitExpr e st = Inr st' \<Longrightarrow> process_store st \<Longrightarrow>
   contains_call tvm_if_then_else e \<Longrightarrow> unsafe_rewritten st'"
  "BoundChecker_VisitArgs es st = Inr st' \<Longrightarrow> process_store st \<Longrightarrow>
   list_ex (contains_call tvm_if_then_else) es \<Longrightarrow> unsafe_rewritten st'"
proof (induction e st and es st arbitrary: st' and st'
    rule: BoundChecker_VisitExpr_BoundChecker_VisitArgs.induct)
  case (1 t buffer_var index predicate st)
  define st1 where
    "st1 = (if CanInstrument st index buffer_var then Collect_bound index buffer_var st else st)"
  from "1.prems"(1) obtain st2 where
    a: "BoundChecker_VisitExpr index st1 = Inr st2" and
    b: "BoundChecker_VisitExpr predicate st2 = Inr st'"
    by (auto simp: Let_def st1_def split: sum.splits)
  have p1: "process_store st1" using "1.prems"(2) bc_step_Load[of st index buffer_var]
    by (simp add: st1_def bc_step_def)
  from "1.prems"(3) have c: "contains_call tvm_if_then_else index \<or>
      contains_call tvm_if_then_else predicate" by simp
  show ?case
    by (rule unsafe_seq[OF a b p1 _ _ c]) (blast intro: "1.IH"(1)[OF st1_def a p1]
        "1.IH"(2)[OF st1_def a b])+
next
  case (2 t name args ct st)
  define st1 where
    "st1 = (if process_store st \<and> is_intrinsic (Call t name args ct) tvm_if_then_else
            then st\<lparr>unsafe_rewritten := True\<rparr> else st)"
  from "2.prems"(1) have a: "BoundChecker_VisitArgs args st1 = Inr st'"
    by (simp add: Let_def st1_def del: is_intrinsic.simps)
  have p1: "process_store st1" using "2.prems"(2) by (simp add: st1_def del: is_intrinsic.simps)
  show ?case
  proof (cases "is_intrinsic (Call t name args ct) tvm_if_then_else")
    case True
    with "2.prems"(2) have "unsafe_rewritten st1" by (simp add: st1_def del: is_intrinsic.simps)
    with BoundChecker_VisitExpr_step(2)[OF a] show ?thesis by (simp add: bc_step_def)
  next
    case False
    with "2.prems"(3) have "list_ex (contains_call tvm_if_then_else) args"
      by (simp del: is_intrinsic.simps)
    from "2.IH"[OF st1_def a p1 this] show ?thesis .
  qed
next
  case (3 t e st)
  then show ?case by simp
next
  case (4 a b st)
  from "4.prems"(1) obtain st1 where
    a: "BoundChecker_VisitExpr a st = Inr st1" and b: "BoundChecker_VisitExpr b st1 = Inr st'"
    by (auto split: sum.splits)
  from "4.prems"(3) have c: "contains_call tvm_if_then_else a \<or> contains_call tvm_if_then_else b"
    by simp
  show ?case
    by (rule unsafe_seq[OF a b "4.prems"(2) _ _ c])
       (blast intro: "4.IH"(1)[OF a "4.prems"(2)] "4.IH"(2)[OF a b])+
next
  case (5 a b st)
  from "5.prems"(1) obtain st1 where
    a: "BoundChecker_VisitExpr a st = Inr st1" and b: "BoundChecker_VisitExpr b st1 = Inr st'"
    by (auto split: sum.splits)
  from "5.prems"(3) have c: "contains_call tvm_if_then_else a \<or> contains_call tvm_if_then_else b"
    by simp
  show ?case
    by (rule unsafe_seq[OF a b "5.prems"(2) _ _ c])
       (blast intro: "5.IH"(1)[OF a "5.prems"(2)] "5.IH"(2)[OF a b])+
next
  case (6 a b st)
  from "6.prems"(1) obtain st1 where
    a: "BoundChecker_VisitExpr a st = Inr st1" and b: "BoundChecker_VisitExpr b st1 = Inr st'"
    by (auto split: sum.splits)
  from "6.prems"(3) have c: "contains_call tvm_if_then_else a \<or> contains_call tvm_if_then_else b"
    by simp
  show ?case
    by (rule unsafe_seq[OF a b "6.prems"(2) _ _ c])
       (blast intro: "6.IH"(1)[OF a "6.prems"(2)] "6.IH"(2)[OF a b])+
next
  case (7 a b st)
  from "7.prems"(1) obtain st1 where
    a: "BoundChecker_VisitExpr a st = Inr st1" and b: "BoundChecker_VisitExpr b st1 = Inr st'"
    by (auto split: sum.splits)
  from "7.prems"(3) have c: "contains_call tvm_if_then_else a \<or> contains_call tvm_if_then_else b"
    by simp
  show ?case
    by (rule unsafe_seq[OF a b "7.prems"(2) _ _ c])
       (blast intro: "7.IH"(1)[OF a "7.prems"(2)] "7.IH"(2)[OF a b])+
next
  case (8 a b st)
  from "8.prems"(1) obtain st1 where
    a: "BoundChecker_VisitExpr a st = Inr st1" and b: "BoundChecker_VisitExpr b st1 = Inr st'"
    by (auto split: sum.splits)
  from "8.prems"(3) have c: "contains_call tvm_if_then_else a \<or> contains_call tvm_if_then_else b"
    by simp
  show ?case
    by (rule unsafe_seq[OF a b "8.prems"(2) _ _ c])
       (blast intro: "8.IH"(1)[OF a "8.prems"(2)] "8.IH"(2)[OF a b])+
next
  case (9 a b st)
  from "9.prems"(1) obtain st1 where
    a: "BoundChecker_VisitExpr a st = Inr st1" and b: "BoundChecker_VisitExpr b st1 = Inr st'"
    by (auto split: sum.splits)
  from "9.prems"(3) have c: "contains_call tvm_if_then_else a \<or> contains_call tvm_if_then_else b"
    by simp
  show ?case
    by (rule unsafe_seq[OF a b "9.prems"(2) _ _ c])
       (blast intro: "9.IH"(1)[OF a "9.prems"(2)] "9.IH"(2)[OF a b])+
next
  case (10 base stride n st)
  from "10.prems"(1) obtain st1 where
    a: "BoundChecker_VisitExpr base st = Inr st1" and
    b: "BoundChecker_VisitExpr stride st1 = Inr st'"
    by (auto split: sum.splits)
  from "10.prems"(3) have c: "contains_call tvm_if_then_else base \<or>
      contains_call tvm_if_then_else stride" by simp
  show ?case
    by (rule unsafe_seq[OF a b "10.prems"(2) _ _ c])
       (blast intro: "10.IH"(1)[OF a "10.prems"(2)] "10.IH"(2)[OF a b])+
next
  case (16 e es st)
  from "16.prems"(1) obtain st1 where
    a: "BoundChecker_VisitExpr e st = Inr st1" and b: "BoundChecker_VisitArgs es st1 = Inr st'"
    by (auto split: sum.splits)
  from BoundChecker_VisitExpr_step(1)[OF a] "16.prems"(2) have p1: "process_store st1"
    by (simp add: bc_step_def)
  show ?case
  proof (cases "contains_call tvm_if_then_else e")
    case True
    from "16.IH"(1)[OF a "16.prems"(2) True] BoundChecker_VisitExpr_step(2)[OF b]
    show ?thesis by (simp add: bc_step_def)
  next
    case False
    with "16.prems"(3) have "list_ex (contains_call tvm_if_then_else) es" by simp
    from "16.IH"(2)[OF a b p1 this] show ?thesis .
  qed
qed simp_all

subsection \<open>The handler of a store\<close>

lemma Store_recurse_step:
  assumes "Store_recurse val index predicate st = Inr st1"
  shows "mem_to_shape st1 = mem_to_shape st" "process_store st1"
    "contains_call tvm_if_then_else val \<Longrightarrow> unsafe_rewritten st1"
proof -
  let ?st0 = "st\<lparr>store_scope_bound_collector := [], process_store := True,
                 unsafe_rewritten := False\<rparr>"
  from assms obtain st2 st3 where
    a: "BoundChecker_VisitExpr val ?st0 = Inr st2" and
    b: "BoundChecker_VisitExpr index st2 = Inr st3" and
    c: "BoundChecker_VisitExpr predicate st3 = Inr st1"
    by (auto simp: Store_recurse_def Let_def split: sum.splits)
  note s = BoundChecker_VisitExpr_step(1)[OF a] BoundChecker_VisitExpr_step(1)[OF b]
    BoundChecker_VisitExpr_step(1)[OF c]
  from s show "mem_to_shape st1 = mem_to_shape st" "process_store st1"
    by (simp_all add: bc_step_def)
  assume "contains_call tvm_if_then_else val"
  from BoundChecker_VisitExpr_sets_unsafe(1)[OF a _ this] have "unsafe_rewritten st2" by simp
  with s show "unsafe_rewritten st1" by (simp add: bc_step_def)
qed

lemma Store_recurse_returns:
  assumes "null_free val" "null_free index" "null_free predicate"
  obtains st1 where "Store_recurse val index predicate st = Inr st1"
proof -
  let ?st0 = "st\<lparr>store_scope_bound_collector := [], process_store := True,
                 unsafe_rewritten := False\<rparr>"
  from assms(1) obtain st2 where a: "BoundChecker_VisitExpr val ?st0 = Inr st2"
    by (rule BoundChecker_VisitExpr_returns)
  from assms(2) obtain st3 where b: "BoundChecker_VisitExpr index st2 = Inr st3"
    by (rule BoundChecker_VisitExpr_returns)
  from assms(3) obtain st4 where c: "BoundChecker_VisitExpr predicate st3 = Inr st4"
    by (rule BoundChecker_VisitExpr_returns)
  from a b c have "Store_recurse val index predicate st = Inr st4"
    by (simp add: Store_recurse_def Let_def)
  then show ?thesis by (rule that)
qed

lemma Store_recurse_fails:
  assumes "\<not> (null_free val \<and> null_free index \<and> null_free predicate)"
  shows "Store_recurse val index predicate st = Inl NullDeref"
proof -
  let ?st0 = "st\<lparr>store_scope_bound_collector := [], process_store := True,
                 unsafe_rewritten := False\<rparr>"
  show ?thesis
  proof (cases "null_free val")
    case False
    then show ?thesis
      by (simp add: Store_recurse_def Let_def BoundChecker_VisitExpr_fails)
  next
    case True
    then obtain st2 where a: "BoundChecker_VisitExpr val ?st0 = Inr st2"
      by (rule BoundChecker_VisitExpr_returns)
    show ?thesis
    proof (cases "null_free index")
      case False
      with a show ?thesis
        by (simp add: Store_recurse_def Let_def BoundChecker_VisitExpr_fails)
    next
      case True
      then obtain st3 where b: "BoundChecker_VisitExpr index st2 = Inr st3"
        by (rule BoundChecker_VisitExpr_returns)
      from assms \<open>null_free val\<close> True have "\<not> null_free predicate" by simp
      with a b show ?thesis
        by (simp add: Store_recurse_def Let_def BoundChecker_VisitExpr_fails)
    qed
  qed
qed

text \<open>
  The handler of \<open>Store\<close> visits the value, the index and the predicate before it asks
  whether the store can be instrumented. When none of them holds a null handle the
  recursion returns, and a store whose buffer has no shape in the table, whose index is a
  malformed ramp (a base or a stride that is not scalar, or a lane count that is not
  positive), or whose value contains a \<^verbatim>\<open>tvm_if_then_else\<close> call is returned as it is,
  provided the recursion collected no pair.
\<close>

lemma Store_unwrapped:
  assumes "null_free val" "null_free index" "null_free predicate"
    and "b \<notin> dom (mem_to_shape st) \<or>
         (\<exists>base stride n. index = Ramp base stride n \<and>
            (\<not> dtype_is_scalar base \<or> \<not> dtype_is_scalar stride \<or> n \<le> 0)) \<or>
         contains_call tvm_if_then_else val"
    and "\<forall>st1. Store_recurse val index predicate st = Inr st1 \<longrightarrow>
           store_scope_bound_collector st1 = []"
  shows "\<exists>st1. Store_recurse val index predicate st = Inr st1 \<and>
           BoundChecker_VisitStmt simplify (Store b val index predicate) st =
             Inr (Store b val index predicate, st1\<lparr>process_store := False\<rparr>)"
proof -
  from assms(1-3) obtain st1 where r: "Store_recurse val index predicate st = Inr st1"
    by (rule Store_recurse_returns)
  with assms(5) have empty: "store_scope_bound_collector st1 = []" by blast
  have "\<not> CanInstrument (st1\<lparr>process_store := False\<rparr>) index b"
    using assms(4) Store_recurse_step(1,3)[OF r]
    by (auto simp: CanInstrument_def)
  with empty have "Store_finish simplify b val index predicate st1 =
      Inr (Store b val index predicate, st1\<lparr>process_store := False\<rparr>)"
    by (simp add: Store_finish_def Let_def)
  with r show ?thesis by simp
qed

definition ex_table :: bc_state where
  "ex_table = BoundChecker_init [ex_A \<mapsto> IntImm (DT_Int 32) 128]"

definition ex_select :: expr where
  "ex_select = Call (DT_Int 32) tvm_if_then_else [ex_true, ex_i, ex_j] PureIntrinsic"

lemma Store_unwrapped_example:
  "null_free ex_select \<and> null_free ex_i \<and> null_free ex_true \<and>
   contains_call tvm_if_then_else ex_select \<and>
   Store_recurse ex_select ex_i ex_true ex_table =
     Inr (ex_table\<lparr>process_store := True, unsafe_rewritten := True\<rparr>) \<and>
   BoundChecker_VisitStmt (\<lambda>e. e) (Store ex_A ex_select ex_i ex_true) ex_table =
     Inr (Store ex_A ex_select ex_i ex_true, ex_table\<lparr>unsafe_rewritten := True\<rparr>)"
proof -
  have r: "Store_recurse ex_select ex_i ex_true ex_table =
     Inr (ex_table\<lparr>process_store := True, unsafe_rewritten := True\<rparr>)"
    by (simp add: Store_recurse_def Let_def ex_select_def ex_i_def ex_j_def ex_true_def
          ex_table_def BoundChecker_init_def)
  have n: "null_free ex_select" "null_free ex_i" "null_free ex_true"
    "contains_call tvm_if_then_else ex_select"
    by (simp_all add: ex_select_def ex_i_def ex_j_def ex_true_def)
  have e: "\<forall>st1. Store_recurse ex_select ex_i ex_true ex_table = Inr st1 \<longrightarrow>
           store_scope_bound_collector st1 = []"
  proof (intro allI impI)
    fix st1 assume "Store_recurse ex_select ex_i ex_true ex_table = Inr st1"
    with r have "st1 = ex_table\<lparr>process_store := True, unsafe_rewritten := True\<rparr>" by simp
    then show "store_scope_bound_collector st1 = []"
      by (simp add: ex_table_def BoundChecker_init_def)
  qed
  from Store_unwrapped[OF n(1-3) _ e, of ex_A "\<lambda>e. e"] n r show ?thesis
    by (simp add: ex_table_def BoundChecker_init_def)
qed

subsection \<open>A store with a null index\<close>

text \<open>
  Claim C8 on a store whose index is the null handle. \<^verbatim>\<open>IndexIsValid\<close> tests
  \<^verbatim>\<open>index.defined()\<close>, so \<^verbatim>\<open>CanInstrument\<close> is false for such a store and the handler
  would return it as it is. But the handler runs the default recursion over the value, the
  index and the predicate before it asks \<^verbatim>\<open>CanInstrument\<close>, and the visit of the null
  index dereferences a null pointer: no statement is returned, whether the buffer has a
  shape in the table or not.
\<close>

theorem undefined_index_aborts:
  "\<not> IndexIsValid Undefined \<and>
   \<not> CanInstrument ex_table Undefined ex_A \<and>
   Store_recurse (IntImm (DT_Int 32) 7) Undefined ex_true ex_table = Inl NullDeref \<and>
   BoundChecker_VisitStmt (\<lambda>e. e) (Store ex_A (IntImm (DT_Int 32) 7) Undefined ex_true) ex_table =
     Inl NullDeref \<and>
   BoundChecker_VisitStmt (\<lambda>e. e) (Store ex_A (IntImm (DT_Int 32) 7) Undefined ex_true)
     (BoundChecker_init Map.empty) = Inl NullDeref \<and>
   InstrumentBoundCheckers (\<lambda>e. e) (Store ex_A (IntImm (DT_Int 32) 7) Undefined ex_true) =
     Inl NullDeref"
  by (simp add: InstrumentBoundCheckers_def Store_recurse_def CanInstrument_def Let_def)

subsection \<open>A store with a gathered load\<close>

text \<open>A four-lane store \<open>A[ramp(0, 1, 4)] = G[C[ramp(0, 1, 4)]]\<close>: the load from \<open>G\<close> has
  the four-lane index \<open>C[ramp(0, 1, 4)]\<close>, which is no ramp. Both \<open>A\<close> and \<open>G\<close> have a
  \<^verbatim>\<open>buffer_bound\<close> attribute.\<close>

definition ex_G :: var where "ex_G = Var ''G'' DT_Handle 8"
definition ex_C :: var where "ex_C = Var ''C'' DT_Handle 9"

definition ex_lanes4 :: expr where
  "ex_lanes4 = Ramp (IntImm (DT_Int 32) 0) (IntImm (DT_Int 32) 1) 4"

definition ex_mask4 :: expr where
  "ex_mask4 = GE ex_lanes4 ex_lanes4"

definition ex_gather_index :: expr where
  "ex_gather_index = Load (DataType kInt 32 4) ex_C ex_lanes4 ex_mask4"

definition ex_gather_store :: stmt where
  "ex_gather_store =
     Store ex_A (Load (DataType kFloat 32 4) ex_G ex_gather_index ex_mask4) ex_lanes4 ex_mask4"

definition ex_gather :: stmt where
  "ex_gather =
     AttrStmt (NodeVariable ex_A) attr_buffer_bound (IntImm (DT_Int 32) 64)
       (AttrStmt (NodeVariable ex_G) attr_buffer_bound (IntImm (DT_Int 32) 128)
          ex_gather_store)"

text \<open>
  Claim C2 on \<open>ex_gather\<close>. The store is instrumentable: \<open>A\<close> has a shape, its index is a
  well-formed ramp, no \<^verbatim>\<open>tvm_if_then_else\<close> occurs. \<^verbatim>\<open>IndexIsValid\<close> accepts the gathered
  index too (it asks for a scalar only inside a ramp), the load from \<open>G\<close> is collected,
  and \<^verbatim>\<open>MakeCondition\<close> casts that four-lane index to the one-lane type \<^verbatim>\<open>Int(64)\<close>: the
  \<^verbatim>\<open>CHECK\<close> of \<^verbatim>\<open>Cast::make\<close> fails and no statement is returned.
\<close>

theorem gather_index_aborts:
  "BoundCollector_VisitStmt ex_gather Map.empty =
     [ex_A \<mapsto> IntImm (DT_Int 32) 64, ex_G \<mapsto> IntImm (DT_Int 32) 128] \<and>
   IndexIsValid ex_lanes4 \<and> IndexIsValid ex_gather_index \<and>
   dtype_of ex_gather_index = Some (DataType kInt 32 4) \<and>
   Store_recurse (Load (DataType kFloat 32 4) ex_G ex_gather_index ex_mask4) ex_lanes4 ex_mask4
     (BoundChecker_init [ex_A \<mapsto> IntImm (DT_Int 32) 64, ex_G \<mapsto> IntImm (DT_Int 32) 128]) =
     Inr \<lparr>process_store = True, unsafe_rewritten = False,
          store_scope_bound_collector = [(ex_gather_index, IntImm (DT_Int 32) 128)],
          mem_to_shape = [ex_A \<mapsto> IntImm (DT_Int 32) 64, ex_G \<mapsto> IntImm (DT_Int 32) 128]\<rparr> \<and>
   Cast_make (DT_Int 64) ex_gather_index = Inl CheckFailed \<and>
   InstrumentBoundCheckers (\<lambda>e. e) ex_gather = Inl CheckFailed"
  by (simp add: ex_gather_def ex_gather_store_def ex_gather_index_def ex_mask4_def ex_lanes4_def
        ex_A_def ex_G_def ex_C_def InstrumentBoundCheckers_def BoundChecker_init_def
        Store_recurse_def Store_finish_def CanInstrument_def Collect_bound_def Let_def
        MakeCondition_def current_condition_def ramp_last_lane_def Cast_make_def
        attr_buffer_bound_def defined_def dtype_is_scalar_def is_scalar_def DT_Int_def
        DT_Handle_def)

subsection \<open>The bound table is global\<close>






text \<open>The result of a statement visit that started with the table \<open>T\<close> agrees with
  \<open>r'\<close>: the same error, or the same statement and the table \<open>T\<close> again.\<close>

definition same_result ::
  "(var \<rightharpoonup> expr) \<Rightarrow> error + (stmt \<times> bc_state) \<Rightarrow> error + stmt \<Rightarrow> bool" where
  "same_result T r r' =
     (case r of
        Inl err \<Rightarrow> r' = Inl err
      | Inr (s', st') \<Rightarrow> r' = Inr s' \<and> mem_to_shape st' = T)"



lemma same_result_InrD:
  "same_result T (Inr (s', st')) r' \<Longrightarrow> r' = Inr s' \<and> mem_to_shape st' = T"
  by (simp add: same_result_def)








definition same_outside :: "var set \<Rightarrow> bc_state \<Rightarrow> bc_state \<Rightarrow> bool" where
  "same_outside A st st' = (\<forall>k. k \<notin> A \<longrightarrow> mem_to_shape st' k = mem_to_shape st k)"

lemma same_outside_refl: "same_outside A st st"
  by (simp add: same_outside_def)























section \<open>Virtual threads: the injected loop\<close>

text \<open>The two forms that \<^verbatim>\<open>InjectVTLoop\<close> emits, in the words of the spec: the copies of
  the statement for the thread constants \<open>0, 1, ..., num_threads - 1\<close>, chained by
  \<open>Block\<close> nodes (each new copy is the right child of a new \<open>Block\<close> whose left child is
  the chain so far), and the serial loop over a new variable named after the thread
  variable with the suffix \<^verbatim>\<open>.s\<close>.\<close>

definition thread_copy ::
  "(stmt \<Rightarrow> var \<Rightarrow> expr \<Rightarrow> stmt) \<Rightarrow> vt_config \<Rightarrow> stmt \<Rightarrow> int \<Rightarrow> stmt" where
  "thread_copy subst cfg s i = subst s (vt_var cfg) (IntImm (var_dtype (vt_var cfg)) i)"

definition unrolled_blocks ::
  "(stmt \<Rightarrow> var \<Rightarrow> expr \<Rightarrow> stmt) \<Rightarrow> vt_config \<Rightarrow> stmt \<Rightarrow> stmt" where
  "unrolled_blocks subst cfg s =
     foldl Block (thread_copy subst cfg s 0)
       (map (thread_copy subst cfg s) [1 .. num_threads cfg - 1])"

text \<open>The loop variable: a new node, named after the thread variable, of its type.\<close>

definition loop_index :: "vt_config \<Rightarrow> stmt \<Rightarrow> var" where
  "loop_index cfg s =
     new_Var (name_hint (vt_var cfg) @ ''.s'') (var_dtype (vt_var cfg)) (vt_var cfg # stmt_vars s)"

definition serial_loop ::
  "(stmt \<Rightarrow> var \<Rightarrow> expr \<Rightarrow> stmt) \<Rightarrow> vt_config \<Rightarrow> stmt \<Rightarrow> stmt" where
  "serial_loop subst cfg s =
     For (loop_index cfg s) (IntImm (var_dtype (vt_var cfg)) 0)
       (IntImm (var_dtype (vt_var cfg)) (num_threads cfg)) Serial DeviceNone
       (subst s (vt_var cfg) (Variable (loop_index cfg s)))"

text \<open>The state in which \<^verbatim>\<open>InjectVTLoop\<close> re-runs the mutator: flags reset, loop marked
  as injected.\<close>

definition inject_entry :: "vt_state \<Rightarrow> vt_state" where
  "inject_entry st =
     st\<lparr>visit_touched_var := False, trigger_base_inject := False, vt_loop_injected := True\<rparr>"

lemma unroll_from_foldl:
  "unroll_from subst cfg s i blk =
     foldl Block blk (map (thread_copy subst cfg s) [i .. num_threads cfg - 1])"
proof (induction subst cfg s i blk rule: unroll_from.induct)
  case (1 subst cfg s i blk)
  show ?case
  proof (cases "i < num_threads cfg")
    case True
    then have "[i .. num_threads cfg - 1] = i # [i + 1 .. num_threads cfg - 1]"
      by (simp add: upto_rec1)
    with True "1.IH" show ?thesis
      by (subst unroll_from.simps) (simp add: thread_copy_def[abs_def] make_const_def)
  next
    case False
    then show ?thesis by (subst unroll_from.simps) simp
  qed
qed

lemma InjectVTLoop_emit_forms:
  "InjectVTLoop_emit subst cfg s st =
     (if max_loop_depth st = 0 \<and> num_threads cfg < 16
      then unrolled_blocks subst cfg s else serial_loop subst cfg s,
      st\<lparr>vt_loop_injected := False, visit_touched_var := False\<rparr>)"
  by (simp add: InjectVTLoop_emit_def unrolled_blocks_def serial_loop_def loop_index_def
        new_Var_def unroll_from_foldl thread_copy_def[abs_def] make_zero_def make_const_def Let_def)

lemma InjectVTLoop_cases:
  assumes "InjectVTLoop subst cfg s before_mutation st = Inr (r, st')"
  shows "\<not> vt_loop_injected st \<and>
         (\<exists>s' st2.
           (if before_mutation
            then VTInjector_VisitStmt subst cfg s (inject_entry st) = Inr (s', st2)
            else s' = s \<and> st2 = inject_entry st) \<and>
           (r, st') = InjectVTLoop_emit subst cfg s' st2)"
  using assms
  by (cases before_mutation)
     (auto simp: InjectVTLoop.simps inject_entry_def Let_def split: if_splits sum.splits)

lemma InjectVTLoop_returns:
  assumes "\<not> vt_loop_injected st"
    and "if before_mutation
         then VTInjector_VisitStmt subst cfg s (inject_entry st) = Inr (s', st2)
         else s' = s \<and> st2 = inject_entry st"
  shows "InjectVTLoop subst cfg s before_mutation st = Inr (InjectVTLoop_emit subst cfg s' st2)"
  using assms
  by (cases before_mutation) (simp_all add: InjectVTLoop.simps inject_entry_def Let_def)

lemma node_id_le_foldr_max: "v \<in> set vs \<Longrightarrow> node_id v \<le> foldr max (map node_id vs) 0"
  by (induction vs) auto

lemma new_Var_fresh: "new_Var name t used \<notin> set used"
proof
  assume "new_Var name t used \<in> set used"
  from node_id_le_foldr_max[OF this] show False by (simp add: new_Var_def)
qed

text \<open>
  Claim C5. \<^verbatim>\<open>InjectVTLoop\<close> returns whenever its \<^verbatim>\<open>CHECK\<close> holds on entry and the optional
  re-mutation returns the statement \<open>s'\<close> (without re-mutation \<open>s'\<close> is the statement
  given). With a loop depth of 0 after that mutation and fewer than 16 threads the result
  is the chain of \<open>Block\<close> nodes over the copies of \<open>s'\<close> for the thread constants
  \<open>0 .. num_threads - 1\<close>; otherwise it is the serial loop from 0 to \<open>num_threads\<close> over
  the copy of \<open>s'\<close> for the loop variable. The loop variable is a new node: it is no
  variable of \<open>s'\<close> and not the thread variable, it carries the name of the thread
  variable with the suffix \<^verbatim>\<open>.s\<close> and its type.
\<close>

theorem InjectVTLoop_unroll_or_loop:
  assumes "\<not> vt_loop_injected st"
    and "if before_mutation
         then VTInjector_VisitStmt subst cfg s (inject_entry st) = Inr (s', st2)
         else s' = s \<and> st2 = inject_entry st"
  shows "InjectVTLoop subst cfg s before_mutation st =
           Inr (if max_loop_depth st2 = 0 \<and> num_threads cfg < 16
                then foldl Block (subst s' (vt_var cfg) (IntImm (var_dtype (vt_var cfg)) 0))
                       (map (\<lambda>i. subst s' (vt_var cfg) (IntImm (var_dtype (vt_var cfg)) i))
                          [1 .. num_threads cfg - 1])
                else For (loop_index cfg s') (IntImm (var_dtype (vt_var cfg)) 0)
                       (IntImm (var_dtype (vt_var cfg)) (num_threads cfg)) Serial DeviceNone
                       (subst s' (vt_var cfg) (Variable (loop_index cfg s'))),
                st2\<lparr>vt_loop_injected := False, visit_touched_var := False\<rparr>) \<and>
         loop_index cfg s' \<notin> set (stmt_vars s') \<and>
         loop_index cfg s' \<noteq> vt_var cfg \<and>
         name_hint (loop_index cfg s') = name_hint (vt_var cfg) @ ''.s'' \<and>
         var_dtype (loop_index cfg s') = var_dtype (vt_var cfg)"
proof -
  have "loop_index cfg s' \<notin> set (vt_var cfg # stmt_vars s')"
    unfolding loop_index_def by (rule new_Var_fresh)
  then have fresh: "loop_index cfg s' \<notin> set (stmt_vars s')" "loop_index cfg s' \<noteq> vt_var cfg"
    by auto
  have shape: "name_hint (loop_index cfg s') = name_hint (vt_var cfg) @ ''.s''"
    "var_dtype (loop_index cfg s') = var_dtype (vt_var cfg)"
    by (simp_all add: loop_index_def new_Var_def)
  have "InjectVTLoop subst cfg s before_mutation st = Inr (InjectVTLoop_emit subst cfg s' st2)"
    using assms by (rule InjectVTLoop_returns)
  then show ?thesis using fresh shape
    by (simp add: InjectVTLoop_emit_forms unrolled_blocks_def serial_loop_def
          thread_copy_def[abs_def])
qed

definition ex_vt :: var where "ex_vt = Var ''vt'' (DT_Int 32) 3"
definition ex_x :: var where "ex_x = Var ''x'' (DT_Int 32) 4"
definition ex_cfg :: vt_config where
  "ex_cfg = \<lparr>vt_var = ex_vt, num_threads = 2, touched_var = {ex_vt, ex_x}, allow_share = True\<rparr>"

lemmas vt_eval = InjectVTLoop.simps VTInjector_VisitStmt.simps VTInjector_VisitStmt_op.simps
  VTInjector_init_def InjectVTLoop_emit_forms unrolled_blocks_def serial_loop_def thread_copy_def
  loop_index_def new_Var_def upto_rec1 inject_entry_def Let_def DT_Int_def

text \<open>A statement that already holds a variable with the name and the type of the loop
  variable: the loop variable is another node.\<close>

definition ex_vts :: var where "ex_vts = Var ''vt.s'' (DT_Int 32) 7"

definition ex_let :: stmt where
  "ex_let = LetStmt ex_x (Variable ex_vt) (Evaluate (Add (Variable ex_x) (Variable ex_vts)))"

theorem InjectVTLoop_unroll_or_loop_witness:
  "VTInjector_VisitStmt Substitute ex_cfg ex_let (inject_entry VTInjector_init) =
     Inr (ex_let, inject_entry VTInjector_init) \<and>
   InjectVTLoop Substitute ex_cfg ex_let True VTInjector_init =
     Inr (Block
            (LetStmt ex_x (IntImm (DT_Int 32) 0) (Evaluate (Add (Variable ex_x) (Variable ex_vts))))
            (LetStmt ex_x (IntImm (DT_Int 32) 1) (Evaluate (Add (Variable ex_x) (Variable ex_vts)))),
          VTInjector_init) \<and>
   InjectVTLoop Substitute (ex_cfg\<lparr>num_threads := 16\<rparr>) ex_let False VTInjector_init =
     Inr (For (Var ''vt.s'' (DT_Int 32) 8) (IntImm (DT_Int 32) 0) (IntImm (DT_Int 32) 16)
            Serial DeviceNone
            (LetStmt ex_x (Variable (Var ''vt.s'' (DT_Int 32) 8))
               (Evaluate (Add (Variable ex_x) (Variable ex_vts)))),
          VTInjector_init) \<and>
   loop_index (ex_cfg\<lparr>num_threads := 16\<rparr>) ex_let = Var ''vt.s'' (DT_Int 32) 8 \<and>
   Var ''vt.s'' (DT_Int 32) 8 \<notin> set (stmt_vars ex_let)"
proof -
  have mut: "VTInjector_VisitStmt Substitute ex_cfg ex_let (inject_entry VTInjector_init) =
     Inr (ex_let, inject_entry VTInjector_init)"
    by (simp add: ex_let_def ex_cfg_def ex_vt_def ex_x_def ex_vts_def vt_eval)
  have idx: "loop_index (ex_cfg\<lparr>num_threads := 16\<rparr>) ex_let = Var ''vt.s'' (DT_Int 32) 8"
    by (simp add: ex_let_def ex_cfg_def ex_vt_def ex_x_def ex_vts_def loop_index_def new_Var_def
          DT_Int_def)
  have a: "if True
         then VTInjector_VisitStmt Substitute ex_cfg ex_let (inject_entry VTInjector_init) =
              Inr (ex_let, inject_entry VTInjector_init)
         else ex_let = ex_let \<and> inject_entry VTInjector_init = inject_entry VTInjector_init"
    using mut by simp
  have b: "if False
         then VTInjector_VisitStmt Substitute (ex_cfg\<lparr>num_threads := 16\<rparr>) ex_let
                (inject_entry VTInjector_init) = Inr (ex_let, inject_entry VTInjector_init)
         else ex_let = ex_let \<and> inject_entry VTInjector_init = inject_entry VTInjector_init"
    by simp
  have c: "\<not> vt_loop_injected VTInjector_init" by (simp add: VTInjector_init_def)
  from InjectVTLoop_unroll_or_loop[OF c a] InjectVTLoop_unroll_or_loop[OF c b] mut idx
  show ?thesis
    by (simp add: ex_let_def ex_cfg_def ex_vt_def ex_x_def ex_vts_def upto_rec1
          inject_entry_def VTInjector_init_def DT_Int_def)
qed

section \<open>Virtual threads: the rewriter below the injection point\<close>

lemma VTInjector_VisitExpr_injected:
  "VTInjector_VisitExpr cfg e st = Inr (e', st1) \<Longrightarrow>
   vt_loop_injected st1 = vt_loop_injected st \<and> max_loop_depth st1 = max_loop_depth st \<and>
   alloc_remap st1 = alloc_remap st"
  by (drule VTInjector_VisitExpr_fields(1)) (simp add: keeps_fields_def)

lemma VTInjector_VisitExtents_injected:
  "VTInjector_VisitExtents cfg es st = Inr (r, st1) \<Longrightarrow>
   vt_loop_injected st1 = vt_loop_injected st \<and> max_loop_depth st1 = max_loop_depth st \<and>
   alloc_remap st1 = alloc_remap st"
  by (drule VTInjector_VisitExtents_fields) (simp add: keeps_fields_def)

text \<open>The handlers with \<open>vt_loop_injected\<close> set: no handler injects a loop, each one
  visits its children and rebuilds its node.\<close>

lemma op_Evaluate_inv:
  assumes "VTInjector_VisitStmt_op subst cfg (Evaluate e) st = Inr (s', st')"
  obtains e' where
    "VTInjector_VisitExpr cfg e (st\<lparr>trigger_base_inject := \<not> allow_share cfg\<rparr>) = Inr (e', st')"
    "s' = Evaluate e'"
  using assms by (auto simp: VTInjector_VisitStmt_op.simps split: sum.splits)

lemma op_Store_inv:
  assumes "VTInjector_VisitStmt_op subst cfg (Store b val index predicate) st = Inr (s', st')"
  obtains val' st1 index' st2 predicate' st3 where
    "VTInjector_VisitExpr cfg val st = Inr (val', st1)"
    "VTInjector_VisitExpr cfg index st1 = Inr (index', st2)"
    "VTInjector_VisitExpr cfg predicate st2 = Inr (predicate', st3)"
    "st' = (if b \<in> touched_var cfg then st3\<lparr>visit_touched_var := True\<rparr> else st3)
             \<lparr>trigger_base_inject := \<not> allow_share cfg\<rparr>"
    "s' = (case alloc_remap st3 b of
             Some alloc_extent \<Rightarrow> Store b val' (RewriteIndex cfg index' alloc_extent) predicate'
           | None \<Rightarrow> Store b val' index' predicate')"
  using assms
  by (auto simp: VTInjector_VisitStmt_op.simps Let_def split: sum.splits option.splits if_splits)

lemma op_LetStmt_inv:
  assumes "VTInjector_VisitStmt_op subst cfg (LetStmt v val body) st = Inr (s', st')"
    and "vt_loop_injected st"
  obtains val' st1 body' where
    "VTInjector_VisitExpr cfg val st = Inr (val', st1)"
    "VTInjector_VisitStmt subst cfg body (st1\<lparr>visit_touched_var := False\<rparr>) = Inr (body', st')"
    "s' = LetStmt v val' body'"
  using assms
  by (auto simp: VTInjector_VisitStmt_op.simps split: sum.splits if_splits
        dest: VTInjector_VisitExpr_injected)

lemma op_AttrStmt_inv:
  assumes "VTInjector_VisitStmt_op subst cfg (AttrStmt node key val body) st = Inr (s', st')"
    and "vt_loop_injected st"
  obtains val' st1 body' where
    "VTInjector_VisitExpr cfg val st = Inr (val', st1)"
    "VTInjector_VisitStmt subst cfg body st1 = Inr (body', st')"
    "s' = AttrStmt node key val' body'"
  using assms
  by (auto simp: VTInjector_VisitStmt_op.simps split: sum.splits if_splits
        dest: VTInjector_VisitExpr_injected)

lemma op_AssertStmt_inv:
  assumes "VTInjector_VisitStmt_op subst cfg (AssertStmt c msg body) st = Inr (s', st')"
  obtains c' st1 msg' st2 body' where
    "VTInjector_VisitExpr cfg c st = Inr (c', st1)"
    "VTInjector_VisitExpr cfg msg st1 = Inr (msg', st2)"
    "VTInjector_VisitStmt subst cfg body st2 = Inr (body', st')"
    "s' = AssertStmt c' msg' body'"
  using assms
  by (auto simp: VTInjector_VisitStmt_op.simps split: sum.splits)

lemma op_For_inv:
  assumes "VTInjector_VisitStmt_op subst cfg (For v mn ext ft dev body) st = Inr (s', st')"
    and "vt_loop_injected st"
  obtains ext' st1 body' st2 where
    "VTInjector_VisitExpr cfg ext st = Inr (ext', st1)"
    "VTInjector_VisitStmt subst cfg body (st1\<lparr>visit_touched_var := False\<rparr>) = Inr (body', st2)"
    "s' = For v mn ext' ft dev body'"
    "st' = st2\<lparr>max_loop_depth := max_loop_depth st2 + 1\<rparr>"
  using assms
  by (auto simp: VTInjector_VisitStmt_op.simps split: sum.splits if_splits
        dest: VTInjector_VisitExpr_injected)

lemma op_IfThenElse_inv:
  assumes "VTInjector_VisitStmt_op subst cfg (IfThenElse c t e) st = Inr (s', st')"
    and "vt_loop_injected st"
  obtains c' st1 t' st2 where
    "VTInjector_VisitExpr cfg c st = Inr (c', st1)"
    "max_loop_depth st1 = 0"
    "VTInjector_VisitStmt subst cfg t (st1\<lparr>visit_touched_var := False\<rparr>) = Inr (t', st2)"
    "(e = None \<and> s' = IfThenElse c' t' None \<and> st' = st2) \<or>
     (\<exists>x x' st3. e = Some x \<and>
        VTInjector_VisitStmt subst cfg x (st2\<lparr>max_loop_depth := 0\<rparr>) = Inr (x', st3) \<and>
        s' = IfThenElse c' t' (Some x') \<and>
        st' = st3\<lparr>max_loop_depth := max (max_loop_depth st2) (max_loop_depth st3)\<rparr>)"
proof -
  from assms obtain c' st1 where
    c: "VTInjector_VisitExpr cfg c st = Inr (c', st1)"
    by (auto simp: VTInjector_VisitStmt_op.simps split: sum.splits)
  from VTInjector_VisitExpr_injected[OF c] assms(2) have i1: "vt_loop_injected st1" by simp
  from assms c i1 have d: "max_loop_depth st1 = 0"
    by (auto simp: VTInjector_VisitStmt_op.simps split: if_splits)
  from assms c i1 d obtain t' st2 where
    t: "VTInjector_VisitStmt subst cfg t (st1\<lparr>visit_touched_var := False\<rparr>) = Inr (t', st2)"
    by (auto simp: VTInjector_VisitStmt_op.simps split: sum.splits)
  from assms c i1 d t have
    "(e = None \<and> s' = IfThenElse c' t' None \<and> st' = st2) \<or>
     (\<exists>x x' st3. e = Some x \<and>
        VTInjector_VisitStmt subst cfg x (st2\<lparr>max_loop_depth := 0\<rparr>) = Inr (x', st3) \<and>
        s' = IfThenElse c' t' (Some x') \<and>
        st' = st3\<lparr>max_loop_depth := max (max_loop_depth st2) (max_loop_depth st3)\<rparr>)"
    by (cases e) (auto simp: VTInjector_VisitStmt_op.simps split: sum.splits)
  with c d t show ?thesis by (rule that)
qed

lemma op_Block_inv:
  assumes "VTInjector_VisitStmt_op subst cfg (Block first rest) st = Inr (s', st')"
  obtains first' st1 rest' st2 where
    "max_loop_depth st = 0"
    "VTInjector_VisitStmt subst cfg first st = Inr (first', st1)"
    "VTInjector_VisitStmt subst cfg rest (st1\<lparr>max_loop_depth := 0\<rparr>) = Inr (rest', st2)"
    "s' = Block first' rest'"
    "st' = st2\<lparr>max_loop_depth := max (max_loop_depth st2) (max_loop_depth st1)\<rparr>"
  using assms
  by (auto simp: VTInjector_VisitStmt_op.simps split: sum.splits if_splits)

text \<open>The extents that the handler of \<open>Allocate\<close> writes: the visited extents, with the
  thread count in front when the buffer is touched or the region is not shareable.\<close>

definition expanded_extents ::
  "vt_config \<Rightarrow> var \<Rightarrow> expr list \<Rightarrow> expr list \<Rightarrow> expr list" where
  "expanded_extents cfg b extents extents' =
     (if b \<in> touched_var cfg \<or> \<not> allow_share cfg
      then (case dtype_of (hd extents) of
              Some et \<Rightarrow> make_const et (num_threads cfg) # extents'
            | None \<Rightarrow> extents')
      else extents')"

lemma op_Allocate_inv:
  assumes "VTInjector_VisitStmt_op subst cfg (Allocate b t es c body ne ff) st = Inr (s', st')"
    and "vt_loop_injected st"
  obtains c' st1 es' st2 body' where
    "VTInjector_VisitExpr cfg c st = Inr (c', st1)"
    "VTInjector_VisitExtents cfg es st1 = Inr (Some es', st2)"
    "VTInjector_VisitStmt subst cfg body
       (if b \<in> touched_var cfg \<or> \<not> allow_share cfg
        then st2\<lparr>visit_touched_var := False,
                 alloc_remap := (alloc_remap st2)(b \<mapsto> projr (alloc_stride es t))\<rparr>
        else st2\<lparr>visit_touched_var := False\<rparr>) = Inr (body', st')"
    "b \<in> touched_var cfg \<or> \<not> allow_share cfg \<Longrightarrow>
       (\<exists>stride et. alloc_stride es t = Inr stride \<and> dtype_of (hd es) = Some et)"
    "s' = Allocate b t (expanded_extents cfg b es es') c' body' ne ff"
proof -
  from assms obtain c' st1 where
    c: "VTInjector_VisitExpr cfg c st = Inr (c', st1)"
    by (auto simp: VTInjector_VisitStmt_op.simps split: sum.splits)
  from VTInjector_VisitExpr_injected[OF c] assms(2) have i1: "vt_loop_injected st1" by simp
  from assms c i1 obtain r st2 where
    es: "VTInjector_VisitExtents cfg es st1 = Inr (r, st2)"
    by (auto simp: VTInjector_VisitStmt_op.simps split: sum.splits)
  from VTInjector_VisitExtents_injected[OF es] i1 have i2: "vt_loop_injected st2" by simp
  obtain es' where r: "r = Some es'"
  proof (cases r)
    case None
    with es have "\<not> vt_loop_injected st2" by (simp add: VTInjector_VisitExtents_None)
    with i2 show ?thesis by simp
  next
    case (Some es')
    then show ?thesis by (rule that)
  qed
  show ?thesis
  proof (cases "b \<in> touched_var cfg \<or> \<not> allow_share cfg")
    case True
    with assms c i1 es r obtain stride et body' where
      "alloc_stride es t = Inr stride" "dtype_of (hd es) = Some et"
      "VTInjector_VisitStmt subst cfg body
         (st2\<lparr>visit_touched_var := False, alloc_remap := (alloc_remap st2)(b \<mapsto> stride)\<rparr>)
        = Inr (body', st')"
      "s' = Allocate b t (make_const et (num_threads cfg) # es') c' body' ne ff"
      by (auto simp: VTInjector_VisitStmt_op.simps split: sum.splits option.splits)
    with True c es r that[of c' st1 es' st2 body'] show ?thesis
      by (simp add: expanded_extents_def)
  next
    case False
    with assms c i1 es r obtain body' where
      "VTInjector_VisitStmt subst cfg body (st2\<lparr>visit_touched_var := False\<rparr>) = Inr (body', st')"
      "s' = Allocate b t es' c' body' ne ff"
      by (auto simp: VTInjector_VisitStmt_op.simps split: sum.splits option.splits)
    with False c es r that[of c' st1 es' st2 body'] show ?thesis
      by (simp add: expanded_extents_def)
  qed
qed

lemma VisitStmt_injected_inv:
  assumes "VTInjector_VisitStmt subst cfg s st = Inr (s', st')"
    and "\<And>s1 st1. VTInjector_VisitStmt_op subst cfg s st = Inr (s1, st1) \<Longrightarrow> vt_loop_injected st1"
  obtains st1 where
    "VTInjector_VisitStmt_op subst cfg s st = Inr (s', st1)"
    "vt_loop_injected st'" "max_loop_depth st' = max_loop_depth st1"
    "alloc_remap st' = alloc_remap st1"
proof -
  from assms(1) obtain s1 st1 where
    op: "VTInjector_VisitStmt_op subst cfg s st = Inr (s1, st1)"
    by (auto simp: VTInjector_VisitStmt.simps split: sum.splits if_splits)
  from assms(2)[OF op] have inj: "vt_loop_injected st1" .
  from assms(1) op inj have "s' = s1" and
    "st' = st1 \<or> st' = st1\<lparr>visit_touched_var := False, trigger_base_inject := False\<rparr>"
    by (auto simp: VTInjector_VisitStmt.simps split: if_splits)
  with op inj that[of st1] show ?thesis by auto
qed

text \<open>The value that \<open>max_loop_depth\<close> takes below the injection point: the nesting depth
  of \<open>For\<close> loops, where sibling statements (the parts of a \<open>Block\<close>, the branches of an
  \<open>IfThenElse\<close>) count separately and combine with \<open>max\<close>.\<close>

fun loop_depth :: "stmt \<Rightarrow> int" where
  "loop_depth (For v mn ext ft dev body) = loop_depth body + 1"
| "loop_depth (Block first rest) = max (loop_depth rest) (loop_depth first)"
| "loop_depth (IfThenElse c t e) =
     (case e of None \<Rightarrow> loop_depth t | Some x \<Rightarrow> max (loop_depth t) (loop_depth x))"
| "loop_depth (LetStmt v val body) = loop_depth body"
| "loop_depth (AttrStmt node key val body) = loop_depth body"
| "loop_depth (AssertStmt c msg body) = loop_depth body"
| "loop_depth (Allocate b t es c body ne ff) = loop_depth body"
| "loop_depth (Store b val index predicate) = 0"
| "loop_depth (Evaluate e) = 0"

fun contains_For :: "stmt \<Rightarrow> bool" where
  "contains_For (For v mn ext ft dev body) = True"
| "contains_For (Block first rest) = (contains_For first \<or> contains_For rest)"
| "contains_For (IfThenElse c t e) =
     (contains_For t \<or> (case e of None \<Rightarrow> False | Some x \<Rightarrow> contains_For x))"
| "contains_For (LetStmt v val body) = contains_For body"
| "contains_For (AttrStmt node key val body) = contains_For body"
| "contains_For (AssertStmt c msg body) = contains_For body"
| "contains_For (Allocate b t es c body ne ff) = contains_For body"
| "contains_For (Store b val index predicate) = False"
| "contains_For (Evaluate e) = False"

lemma loop_depth_nonneg: "0 \<le> loop_depth s"
proof (induction s)
  case (IfThenElse c t e)
  then show ?case by (cases e) auto
qed auto

lemma max_zero_iff: "0 \<le> a \<Longrightarrow> 0 \<le> b \<Longrightarrow> max a b = 0 \<longleftrightarrow> a = 0 \<and> b = (0::int)"
  by (simp add: max_def) linarith

lemma loop_depth_zero: "loop_depth s = 0 \<longleftrightarrow> \<not> contains_For s"
proof (induction s)
  case (For v mn ext ft dev body)
  show ?case using loop_depth_nonneg[of body] by simp
next
  case (IfThenElse c t e)
  show ?case
  proof (cases e)
    case None
    with IfThenElse show ?thesis by simp
  next
    case (Some x)
    have "loop_depth x = 0 \<longleftrightarrow> \<not> contains_For x" using IfThenElse.IH(2)[of x] Some by simp
    with Some IfThenElse.IH(1) show ?thesis
      by (simp add: max_zero_iff[OF loop_depth_nonneg loop_depth_nonneg])
  qed
next
  case (Block first rest)
  then show ?case
    by (simp add: max_zero_iff[OF loop_depth_nonneg loop_depth_nonneg] conj_commute)
qed simp_all

definition inj_ok ::
  "(stmt \<Rightarrow> var \<Rightarrow> expr \<Rightarrow> stmt) \<Rightarrow> vt_config \<Rightarrow> stmt \<Rightarrow> bool" where
  "inj_ok subst cfg s =
     (\<forall>st s' st'. vt_loop_injected st \<longrightarrow> max_loop_depth st = 0 \<longrightarrow>
        VTInjector_VisitStmt_op subst cfg s st = Inr (s', st') \<longrightarrow>
        vt_loop_injected st' \<and> max_loop_depth st' = loop_depth s \<and> loop_depth s' = loop_depth s)"

lemma inj_okI:
  "(\<And>st s' st'. vt_loop_injected st \<Longrightarrow> max_loop_depth st = 0 \<Longrightarrow>
        VTInjector_VisitStmt_op subst cfg s st = Inr (s', st') \<Longrightarrow>
        vt_loop_injected st' \<and> max_loop_depth st' = loop_depth s \<and> loop_depth s' = loop_depth s)
   \<Longrightarrow> inj_ok subst cfg s"
  unfolding inj_ok_def by blast

lemma inj_okD:
  "inj_ok subst cfg s \<Longrightarrow> vt_loop_injected st \<Longrightarrow> max_loop_depth st = 0 \<Longrightarrow>
   VTInjector_VisitStmt_op subst cfg s st = Inr (s', st') \<Longrightarrow>
   vt_loop_injected st' \<and> max_loop_depth st' = loop_depth s \<and> loop_depth s' = loop_depth s"
  unfolding inj_ok_def by blast

lemma inj_ok_VisitStmt:
  assumes "inj_ok subst cfg s" "vt_loop_injected st" "max_loop_depth st = 0"
    "VTInjector_VisitStmt subst cfg s st = Inr (s', st')"
  shows "vt_loop_injected st' \<and> max_loop_depth st' = loop_depth s \<and> loop_depth s' = loop_depth s"
proof (rule VisitStmt_injected_inv[OF assms(4)])
  fix s1 st1
  assume "VTInjector_VisitStmt_op subst cfg s st = Inr (s1, st1)"
  from inj_okD[OF assms(1-3) this] show "vt_loop_injected st1" by blast
next
  fix st1
  assume a: "VTInjector_VisitStmt_op subst cfg s st = Inr (s', st1)"
    and b: "vt_loop_injected st'" "max_loop_depth st' = max_loop_depth st1"
  from inj_okD[OF assms(1-3) a] b show ?thesis by simp
qed

lemma inj_ok_LetStmt:
  assumes IH: "inj_ok subst cfg body"
  shows "inj_ok subst cfg (LetStmt v val body)"
proof (rule inj_okI)
  fix st s' st'
  assume inj: "vt_loop_injected st" and d: "max_loop_depth st = 0"
    and op: "VTInjector_VisitStmt_op subst cfg (LetStmt v val body) st = Inr (s', st')"
  from op_LetStmt_inv[OF op inj] obtain val' st1 body' where
    a: "VTInjector_VisitExpr cfg val st = Inr (val', st1)" and
    b: "VTInjector_VisitStmt subst cfg body (st1\<lparr>visit_touched_var := False\<rparr>) = Inr (body', st')"
    and s': "s' = LetStmt v val' body'" by blast
  from VTInjector_VisitExpr_injected[OF a] inj d
  have "vt_loop_injected (st1\<lparr>visit_touched_var := False\<rparr>)"
    "max_loop_depth (st1\<lparr>visit_touched_var := False\<rparr>) = 0" by simp_all
  from inj_ok_VisitStmt[OF IH this b] s'
  show "vt_loop_injected st' \<and> max_loop_depth st' = loop_depth (LetStmt v val body) \<and>
        loop_depth s' = loop_depth (LetStmt v val body)" by simp
qed

lemma inj_ok_AttrStmt:
  assumes IH: "inj_ok subst cfg body"
  shows "inj_ok subst cfg (AttrStmt node key val body)"
proof (rule inj_okI)
  fix st s' st'
  assume inj: "vt_loop_injected st" and d: "max_loop_depth st = 0"
    and op: "VTInjector_VisitStmt_op subst cfg (AttrStmt node key val body) st = Inr (s', st')"
  from op_AttrStmt_inv[OF op inj] obtain val' st1 body' where
    a: "VTInjector_VisitExpr cfg val st = Inr (val', st1)" and
    b: "VTInjector_VisitStmt subst cfg body st1 = Inr (body', st')"
    and s': "s' = AttrStmt node key val' body'" by blast
  from VTInjector_VisitExpr_injected[OF a] inj d
  have "vt_loop_injected st1" "max_loop_depth st1 = 0" by simp_all
  from inj_ok_VisitStmt[OF IH this b] s'
  show "vt_loop_injected st' \<and> max_loop_depth st' = loop_depth (AttrStmt node key val body) \<and>
        loop_depth s' = loop_depth (AttrStmt node key val body)" by simp
qed

lemma inj_ok_AssertStmt:
  assumes IH: "inj_ok subst cfg body"
  shows "inj_ok subst cfg (AssertStmt c msg body)"
proof (rule inj_okI)
  fix st s' st'
  assume inj: "vt_loop_injected st" and d: "max_loop_depth st = 0"
    and op: "VTInjector_VisitStmt_op subst cfg (AssertStmt c msg body) st = Inr (s', st')"
  from op_AssertStmt_inv[OF op] obtain c' st1 msg' st2 body' where
    a: "VTInjector_VisitExpr cfg c st = Inr (c', st1)" and
    a2: "VTInjector_VisitExpr cfg msg st1 = Inr (msg', st2)" and
    b: "VTInjector_VisitStmt subst cfg body st2 = Inr (body', st')"
    and s': "s' = AssertStmt c' msg' body'" by blast
  from VTInjector_VisitExpr_injected[OF a] VTInjector_VisitExpr_injected[OF a2] inj d
  have "vt_loop_injected st2" "max_loop_depth st2 = 0" by simp_all
  from inj_ok_VisitStmt[OF IH this b] s'
  show "vt_loop_injected st' \<and> max_loop_depth st' = loop_depth (AssertStmt c msg body) \<and>
        loop_depth s' = loop_depth (AssertStmt c msg body)" by simp
qed

lemma inj_ok_Store:
  shows "inj_ok subst cfg (Store b val index predicate)"
proof (rule inj_okI)
  fix st s' st'
  assume inj: "vt_loop_injected st" and d: "max_loop_depth st = 0"
    and op: "VTInjector_VisitStmt_op subst cfg (Store b val index predicate) st = Inr (s', st')"
  from op_Store_inv[OF op] obtain val' st1 index' st2 predicate' st3 where
    a: "VTInjector_VisitExpr cfg val st = Inr (val', st1)"
       "VTInjector_VisitExpr cfg index st1 = Inr (index', st2)"
       "VTInjector_VisitExpr cfg predicate st2 = Inr (predicate', st3)" and
    st': "st' = (if b \<in> touched_var cfg then st3\<lparr>visit_touched_var := True\<rparr> else st3)
           \<lparr>trigger_base_inject := \<not> allow_share cfg\<rparr>" and
    s': "s' = (case alloc_remap st3 b of
           Some alloc_extent \<Rightarrow> Store b val' (RewriteIndex cfg index' alloc_extent) predicate'
         | None \<Rightarrow> Store b val' index' predicate')" by blast
  from a(1)[THEN VTInjector_VisitExpr_injected] a(2)[THEN VTInjector_VisitExpr_injected]
    a(3)[THEN VTInjector_VisitExpr_injected] inj d st' s'
  show "vt_loop_injected st' \<and> max_loop_depth st' = loop_depth (Store b val index predicate) \<and>
        loop_depth s' = loop_depth (Store b val index predicate)"
    by (simp split: option.splits)
qed

lemma inj_ok_Allocate:
  assumes IH: "inj_ok subst cfg body"
  shows "inj_ok subst cfg (Allocate b t es c body ne ff)"
proof (rule inj_okI)
  fix st s' st'
  assume inj: "vt_loop_injected st" and d: "max_loop_depth st = 0"
    and op: "VTInjector_VisitStmt_op subst cfg (Allocate b t es c body ne ff) st = Inr (s', st')"
  from op_Allocate_inv[OF op inj] obtain c' st1 es' st2 body' where
    a: "VTInjector_VisitExpr cfg c st = Inr (c', st1)" and
    a2: "VTInjector_VisitExtents cfg es st1 = Inr (Some es', st2)" and
    b: "VTInjector_VisitStmt subst cfg body
     (if b \<in> touched_var cfg \<or> \<not> allow_share cfg
      then st2\<lparr>visit_touched_var := False,
               alloc_remap := (alloc_remap st2)(b \<mapsto> projr (alloc_stride es t))\<rparr>
      else st2\<lparr>visit_touched_var := False\<rparr>) = Inr (body', st')" and
    ex: "b \<in> touched_var cfg \<or> \<not> allow_share cfg \<Longrightarrow>
     (\<exists>stride et. alloc_stride es t = Inr stride \<and> dtype_of (hd es) = Some et)" and
    s': "s' = Allocate b t (expanded_extents cfg b es es') c' body' ne ff" by blast
  let ?st3 = "if b \<in> touched_var cfg \<or> \<not> allow_share cfg
      then st2\<lparr>visit_touched_var := False,
               alloc_remap := (alloc_remap st2)(b \<mapsto> projr (alloc_stride es t))\<rparr>
      else st2\<lparr>visit_touched_var := False\<rparr>"
  from VTInjector_VisitExpr_injected[OF a] VTInjector_VisitExtents_injected[OF a2] inj d
  have "vt_loop_injected ?st3" "max_loop_depth ?st3 = 0" by simp_all
  from inj_ok_VisitStmt[OF IH this b] s'
  show "vt_loop_injected st' \<and> max_loop_depth st' = loop_depth (Allocate b t es c body ne ff) \<and>
        loop_depth s' = loop_depth (Allocate b t es c body ne ff)" by simp
qed

lemma inj_ok_For:
  assumes IH: "inj_ok subst cfg body"
  shows "inj_ok subst cfg (For v mn ext ft dev body)"
proof (rule inj_okI)
  fix st s' st'
  assume inj: "vt_loop_injected st" and d: "max_loop_depth st = 0"
    and op: "VTInjector_VisitStmt_op subst cfg (For v mn ext ft dev body) st = Inr (s', st')"
  from op_For_inv[OF op inj] obtain ext' st1 body' st2 where
    a: "VTInjector_VisitExpr cfg ext st = Inr (ext', st1)" and
    b: "VTInjector_VisitStmt subst cfg body (st1\<lparr>visit_touched_var := False\<rparr>) = Inr (body', st2)"
    and s': "s' = For v mn ext' ft dev body'"
    and st': "st' = st2\<lparr>max_loop_depth := max_loop_depth st2 + 1\<rparr>" by blast
  from VTInjector_VisitExpr_injected[OF a] inj d
  have "vt_loop_injected (st1\<lparr>visit_touched_var := False\<rparr>)"
    "max_loop_depth (st1\<lparr>visit_touched_var := False\<rparr>) = 0" by simp_all
  from inj_ok_VisitStmt[OF IH this b] s' st'
  show "vt_loop_injected st' \<and> max_loop_depth st' = loop_depth (For v mn ext ft dev body) \<and>
        loop_depth s' = loop_depth (For v mn ext ft dev body)" by simp
qed

lemma inj_ok_IfThenElse:
  assumes IH1: "inj_ok subst cfg t" and IH2: "\<And>x. e = Some x \<Longrightarrow> inj_ok subst cfg x"
  shows "inj_ok subst cfg (IfThenElse c t e)"
proof (rule inj_okI)
  fix st s' st'
  assume inj: "vt_loop_injected st" and d: "max_loop_depth st = 0"
    and op: "VTInjector_VisitStmt_op subst cfg (IfThenElse c t e) st = Inr (s', st')"
  from op_IfThenElse_inv[OF op inj] obtain c' st1 t' st2 where
    a: "VTInjector_VisitExpr cfg c st = Inr (c', st1)" and
    d1: "max_loop_depth st1 = 0" and
    b: "VTInjector_VisitStmt subst cfg t (st1\<lparr>visit_touched_var := False\<rparr>) = Inr (t', st2)" and
    r: "(e = None \<and> s' = IfThenElse c' t' None \<and> st' = st2) \<or>
   (\<exists>x x' st3. e = Some x \<and>
      VTInjector_VisitStmt subst cfg x (st2\<lparr>max_loop_depth := 0\<rparr>) = Inr (x', st3) \<and>
      s' = IfThenElse c' t' (Some x') \<and>
      st' = st3\<lparr>max_loop_depth := max (max_loop_depth st2) (max_loop_depth st3)\<rparr>)"
    by blast
  from VTInjector_VisitExpr_injected[OF a] inj d
  have "vt_loop_injected (st1\<lparr>visit_touched_var := False\<rparr>)"
    "max_loop_depth (st1\<lparr>visit_touched_var := False\<rparr>) = 0" by simp_all
  from inj_ok_VisitStmt[OF IH1 this b]
  have t: "vt_loop_injected st2" "max_loop_depth st2 = loop_depth t" "loop_depth t' = loop_depth t"
    by simp_all
  from r show "vt_loop_injected st' \<and> max_loop_depth st' = loop_depth (IfThenElse c t e) \<and>
        loop_depth s' = loop_depth (IfThenElse c t e)"
  proof
    assume "e = None \<and> s' = IfThenElse c' t' None \<and> st' = st2"
    with t show ?thesis by simp
  next
    assume "\<exists>x x' st3. e = Some x \<and>
      VTInjector_VisitStmt subst cfg x (st2\<lparr>max_loop_depth := 0\<rparr>) = Inr (x', st3) \<and>
      s' = IfThenElse c' t' (Some x') \<and>
      st' = st3\<lparr>max_loop_depth := max (max_loop_depth st2) (max_loop_depth st3)\<rparr>"
    then obtain x x' st3 where e: "e = Some x" and
      v: "VTInjector_VisitStmt subst cfg x (st2\<lparr>max_loop_depth := 0\<rparr>) = Inr (x', st3)" and
      s': "s' = IfThenElse c' t' (Some x')" and
      st': "st' = st3\<lparr>max_loop_depth := max (max_loop_depth st2) (max_loop_depth st3)\<rparr>"
      by blast
    have okx: "inj_ok subst cfg x" using IH2 e by simp
    have "vt_loop_injected (st2\<lparr>max_loop_depth := 0\<rparr>)" "max_loop_depth (st2\<lparr>max_loop_depth := 0\<rparr>) = 0"
      using t by simp_all
    from inj_ok_VisitStmt[OF okx this v] t e s' st' show ?thesis by simp
  qed
qed

lemma inj_ok_Block:
  assumes IH1: "inj_ok subst cfg first" and IH2: "inj_ok subst cfg rest"
  shows "inj_ok subst cfg (Block first rest)"
proof (rule inj_okI)
  fix st s' st'
  assume inj: "vt_loop_injected st" and d: "max_loop_depth st = 0"
    and op: "VTInjector_VisitStmt_op subst cfg (Block first rest) st = Inr (s', st')"
  from op_Block_inv[OF op] obtain first' st1 rest' st2 where
    d0: "max_loop_depth st = 0" and
    a: "VTInjector_VisitStmt subst cfg first st = Inr (first', st1)" and
    b: "VTInjector_VisitStmt subst cfg rest (st1\<lparr>max_loop_depth := 0\<rparr>) = Inr (rest', st2)" and
    s': "s' = Block first' rest'" and
    st': "st' = st2\<lparr>max_loop_depth := max (max_loop_depth st2) (max_loop_depth st1)\<rparr>"
    by blast
  from inj_ok_VisitStmt[OF IH1 inj d a]
  have f1: "vt_loop_injected st1" and f2: "max_loop_depth st1 = loop_depth first"
    and f3: "loop_depth first' = loop_depth first" by blast+
  have i1: "vt_loop_injected (st1\<lparr>max_loop_depth := 0\<rparr>)" using f1 by simp
  have d1: "max_loop_depth (st1\<lparr>max_loop_depth := 0\<rparr>) = 0" by simp
  from inj_ok_VisitStmt[OF IH2 i1 d1 b]
  have r1: "vt_loop_injected st2" and r2: "max_loop_depth st2 = loop_depth rest"
    and r3: "loop_depth rest' = loop_depth rest" by blast+
  show "vt_loop_injected st' \<and> max_loop_depth st' = loop_depth (Block first rest) \<and>
        loop_depth s' = loop_depth (Block first rest)"
    unfolding s' st' by (simp add: f2 f3 r1 r2 r3)
qed

lemma inj_ok_Evaluate:
  shows "inj_ok subst cfg (Evaluate e)"
proof (rule inj_okI)
  fix st s' st'
  assume inj: "vt_loop_injected st" and d: "max_loop_depth st = 0"
    and op: "VTInjector_VisitStmt_op subst cfg (Evaluate e) st = Inr (s', st')"
  from op_Evaluate_inv[OF op] obtain e' where
    a: "VTInjector_VisitExpr cfg e (st\<lparr>trigger_base_inject := \<not> allow_share cfg\<rparr>) = Inr (e', st')"
    and s': "s' = Evaluate e'" by blast
  from VTInjector_VisitExpr_injected[OF a] inj d s'
  show "vt_loop_injected st' \<and> max_loop_depth st' = loop_depth (Evaluate e) \<and>
        loop_depth s' = loop_depth (Evaluate e)" by simp
qed

lemma inj_ok_all: "inj_ok subst cfg s"
proof (induction s)
  case (IfThenElse c t e)
  show ?case
  proof (rule inj_ok_IfThenElse)
    show "inj_ok subst cfg t" by (rule IfThenElse.IH(1))
  next
    fix x assume "e = Some x"
    then show "inj_ok subst cfg x" using IfThenElse.IH(2)[of x] by simp
  qed
qed (blast intro: inj_ok_LetStmt inj_ok_AttrStmt inj_ok_AssertStmt inj_ok_Store inj_ok_Allocate
       inj_ok_For inj_ok_Block inj_ok_Evaluate)+

text \<open>
  Claim C4, as the code has it. \<open>max_loop_depth\<close> is only ever incremented by the handler
  of \<open>For\<close>; the handlers of \<open>IfThenElse\<close> and \<open>Block\<close> save, reset and combine it.
  With the counter 0 on entry, \<^verbatim>\<open>InjectVTLoop\<close> therefore emits the unrolled form exactly
  when there are fewer than 16 threads and no \<open>For\<close> node occurs in the statement at the
  injection point (none survives the re-mutation either); \<open>IfThenElse\<close> and \<open>Block\<close> nodes
  beneath the injection point do not prevent unrolling. Without re-mutation the counter is
  the one on entry.
\<close>

theorem unroll_gate:
  assumes "InjectVTLoop subst cfg s before_mutation st = Inr (r, st')"
    and "max_loop_depth st = 0"
  shows "\<exists>s'. (if before_mutation
               then (\<exists>st2. VTInjector_VisitStmt subst cfg s (inject_entry st) = Inr (s', st2)) \<and>
                    (contains_For s' \<longleftrightarrow> contains_For s)
               else s' = s) \<and>
              r = (if num_threads cfg < 16 \<and> (before_mutation \<longrightarrow> \<not> contains_For s')
                   then unrolled_blocks subst cfg s' else serial_loop subst cfg s')"
proof -
  from InjectVTLoop_cases[OF assms(1)] obtain s' st2 where
    v: "if before_mutation
        then VTInjector_VisitStmt subst cfg s (inject_entry st) = Inr (s', st2)
        else s' = s \<and> st2 = inject_entry st" and
    r: "(r, st') = InjectVTLoop_emit subst cfg s' st2"
    by blast
  from r have r': "r = (if max_loop_depth st2 = 0 \<and> num_threads cfg < 16
                then unrolled_blocks subst cfg s' else serial_loop subst cfg s')"
    by (simp add: InjectVTLoop_emit_forms)
  show ?thesis
  proof (cases before_mutation)
    case True
    with v have vs: "VTInjector_VisitStmt subst cfg s (inject_entry st) = Inr (s', st2)" by simp
    have "vt_loop_injected (inject_entry st)" "max_loop_depth (inject_entry st) = 0"
      using assms(2) by (simp_all add: inject_entry_def)
    from inj_ok_VisitStmt[OF inj_ok_all this vs]
    have d: "max_loop_depth st2 = loop_depth s" and l: "loop_depth s' = loop_depth s" by blast+
    from l have cf: "contains_For s' \<longleftrightarrow> contains_For s"
      using loop_depth_zero[of s'] loop_depth_zero[of s] by simp
    from d have "max_loop_depth st2 = 0 \<longleftrightarrow> \<not> contains_For s'"
      using loop_depth_zero[of s] cf by simp
    with r' have "r = (if num_threads cfg < 16 \<and> \<not> contains_For s'
                then unrolled_blocks subst cfg s' else serial_loop subst cfg s')"
      by auto
    with True vs cf show ?thesis by auto
  next
    case False
    with v have "s' = s" "max_loop_depth st2 = 0"
      using assms(2) by (simp_all add: inject_entry_def)
    with r' False show ?thesis by auto
  qed
qed

definition ex_nested :: stmt where
  "ex_nested =
     LetStmt ex_x (Variable ex_vt)
       (Block (Evaluate (Variable ex_x))
          (IfThenElse (Variable ex_x) (Evaluate (IntImm (DT_Int 32) 7)) None))"

theorem unroll_gate_witness:
  "InjectVTLoop Substitute ex_cfg ex_nested True VTInjector_init =
     Inr (unrolled_blocks Substitute ex_cfg ex_nested, VTInjector_init) \<and>
   max_loop_depth VTInjector_init = 0 \<and> \<not> contains_For ex_nested \<and> num_threads ex_cfg < 16"
  using unroll_gate [of Substitute ex_cfg ex_nested True VTInjector_init
      "unrolled_blocks Substitute ex_cfg ex_nested" VTInjector_init]
  by (simp add: vt_eval ex_nested_def ex_cfg_def ex_vt_def ex_x_def)

text \<open>The claim as stated fails: with two threads, the loop is injected at a \<open>LetStmt\<close>
  whose body is a \<open>Block\<close> holding an \<open>IfThenElse\<close>, and the result is the unrolled form.\<close>

theorem unroll_gate_counterexample:
  "VTInjector_VisitStmt Substitute ex_cfg
     (LetStmt ex_x (Variable ex_vt)
        (Block (Evaluate (Variable ex_x))
           (IfThenElse (Variable ex_x) (Evaluate (IntImm (DT_Int 32) 7)) None)))
     VTInjector_init =
   Inr (Block
          (LetStmt ex_x (IntImm (DT_Int 32) 0)
             (Block (Evaluate (Variable ex_x))
                (IfThenElse (Variable ex_x) (Evaluate (IntImm (DT_Int 32) 7)) None)))
          (LetStmt ex_x (IntImm (DT_Int 32) 1)
             (Block (Evaluate (Variable ex_x))
                (IfThenElse (Variable ex_x) (Evaluate (IntImm (DT_Int 32) 7)) None))),
        VTInjector_init)"
  by (simp add: vt_eval ex_cfg_def ex_vt_def ex_x_def)

section \<open>Virtual threads: allocations and index rewriting\<close>


lemma dtype_of_foldl_Mul: "dtype_of (foldl Mul e es) = dtype_of e"
  by (induction es arbitrary: e) simp_all

lemma alloc_stride_product:
  "alloc_stride es t = Inr stride \<Longrightarrow>
   \<exists>e0 rest pt. es = e0 # rest \<and> dtype_of e0 = Some pt \<and>
     stride = Mul (foldl Mul e0 rest) (IntImm pt (lanes t))"
  by (cases es)
     (auto simp: alloc_stride_def Let_def dtype_of_foldl_Mul make_const_def split: option.splits)

text \<open>The handler of \<open>Allocate\<close> either injects the loop at the allocation (which re-runs
  the handler with \<open>vt_loop_injected\<close> set), or rebuilds the allocation.\<close>

lemma op_Allocate_cases:
  assumes "VTInjector_VisitStmt_op subst cfg (Allocate b t es c body ne ff) st = Inr (r, st')"
  obtains (inject) st1 where
      "\<not> vt_loop_injected st"
      "InjectVTLoop subst cfg (Allocate b t es c body ne ff) True st1 = Inr (r, st')"
    | (rebuild) c' st1 es' st2 body' where
      "VTInjector_VisitExpr cfg c st = Inr (c', st1)"
      "VTInjector_VisitExtents cfg es st1 = Inr (Some es', st2)"
      "VTInjector_VisitStmt subst cfg body
         (if b \<in> touched_var cfg \<or> \<not> allow_share cfg
          then st2\<lparr>visit_touched_var := False,
                   alloc_remap := (alloc_remap st2)(b \<mapsto> projr (alloc_stride es t))\<rparr>
          else st2\<lparr>visit_touched_var := False\<rparr>) = Inr (body', st')"
      "b \<in> touched_var cfg \<or> \<not> allow_share cfg \<Longrightarrow>
         (\<exists>stride et. alloc_stride es t = Inr stride \<and> dtype_of (hd es) = Some et)"
      "r = Allocate b t (expanded_extents cfg b es es') c' body' ne ff"
proof (cases "defined ne \<and> \<not> vt_loop_injected st")
  case True
  with assms show ?thesis
    by (intro inject[of st]) (simp_all add: VTInjector_VisitStmt_op.simps)
next
  case g1: False
  with assms obtain c' st1 where
    c: "VTInjector_VisitExpr cfg c st = Inr (c', st1)"
    by (auto simp: VTInjector_VisitStmt_op.simps split: sum.splits)
  note k1 = VTInjector_VisitExpr_injected[OF c]
  show ?thesis
  proof (cases "visit_touched_var st1 \<and> \<not> vt_loop_injected st1")
    case True
    with assms g1 c k1 show ?thesis
      by (intro inject[of st1]) (simp_all add: VTInjector_VisitStmt_op.simps)
  next
    case g2: False
    with assms g1 c obtain ro st2 where
      es: "VTInjector_VisitExtents cfg es st1 = Inr (ro, st2)"
      by (auto simp: VTInjector_VisitStmt_op.simps split: sum.splits)
    note k2 = VTInjector_VisitExtents_injected[OF es]
    show ?thesis
    proof (cases ro)
      case None
      with es have "\<not> vt_loop_injected st2" by (simp add: VTInjector_VisitExtents_None)
      with assms g1 g2 c es None k1 k2 show ?thesis
        by (intro inject[of st2]) (simp_all add: VTInjector_VisitStmt_op.simps)
    next
      case (Some es')
      show ?thesis
      proof (cases "b \<in> touched_var cfg \<or> \<not> allow_share cfg")
        case True
        with assms g1 g2 c es Some obtain stride et body' where
          "alloc_stride es t = Inr stride" "dtype_of (hd es) = Some et"
          "VTInjector_VisitStmt subst cfg body
             (st2\<lparr>visit_touched_var := False, alloc_remap := (alloc_remap st2)(b \<mapsto> stride)\<rparr>)
            = Inr (body', st')"
          "r = Allocate b t (make_const et (num_threads cfg) # es') c' body' ne ff"
          by (auto simp: VTInjector_VisitStmt_op.simps split: sum.splits option.splits)
        with True c es Some rebuild[of c' st1 es' st2 body'] show ?thesis
          by (simp add: expanded_extents_def)
      next
        case False
        with assms g1 g2 c es Some obtain body' where
          "VTInjector_VisitStmt subst cfg body (st2\<lparr>visit_touched_var := False\<rparr>) = Inr (body', st')"
          "r = Allocate b t es' c' body' ne ff"
          by (auto simp: VTInjector_VisitStmt_op.simps split: sum.splits option.splits)
        with False c es Some rebuild[of c' st1 es' st2 body'] show ?thesis
          by (simp add: expanded_extents_def)
      qed
    qed
  qed
qed


definition ex_B :: var where "ex_B = Var ''B'' DT_Handle 5"

definition ex_cfg_ns :: vt_config where
  "ex_cfg_ns = \<lparr>vt_var = ex_vt, num_threads = 2, touched_var = {ex_vt}, allow_share = False\<rparr>"


definition ex_ctx :: expr where
  "ex_ctx = Call (DT_Int 32) tvm_context_id [] PureIntrinsic"

text \<open>The state in which the body of an allocation of \<open>B\<close> with the one extent 4 is
  visited: \<open>B\<close> is remapped with the stride \<open>4 * lanes\<close>.\<close>

definition ex_st_B :: vt_state where
  "ex_st_B = VTInjector_init
     \<lparr>alloc_remap := [ex_B \<mapsto> Mul (IntImm (DT_Int 32) 4) (IntImm (DT_Int 32) 1)]\<rparr>"

lemmas ex_defs = ex_cfg_def ex_cfg_ns_def ex_vt_def ex_x_def ex_B_def ex_f32_def ex_true_def
  ex_ctx_def ex_st_B_def

lemmas vt_expr_eval = VTInjector_VisitExpr.simps(3) RewriteIndex_def access_ptr_offset_def
  alloc_stride_def expanded_extents_def make_const_def make_zero_def defined_def
  tvm_access_ptr_def tvm_context_id_def DT_Handle_def



lemma VisitExpr_Load_inv:
  assumes "VTInjector_VisitExpr cfg (Load t b index predicate) st = Inr (e', st')"
  obtains index' st1 predicate' st2 where
    "VTInjector_VisitExpr cfg index st = Inr (index', st1)"
    "VTInjector_VisitExpr cfg predicate st1 = Inr (predicate', st2)"
    "st' = (if b \<in> touched_var cfg then st2\<lparr>visit_touched_var := True\<rparr> else st2)"
    "e' = (case alloc_remap st2 b of
             Some alloc_extent \<Rightarrow> Load t b (RewriteIndex cfg index' alloc_extent) predicate'
           | None \<Rightarrow> Load t b index' predicate')"
  using assms by (auto simp: Let_def split: sum.splits option.splits if_splits)

text \<open>
  Claim C1, as the code has it. The handlers first rewrite the sub-expressions, then add
  the thread offset. For a \<open>Load\<close> and a \<open>Store\<close> of a remapped buffer the new index is
  \<open>index' + var * stride\<close>, where \<open>index'\<close> is the rewritten old index. For a
  \<^verbatim>\<open>tvm_access_ptr\<close> call on a remapped buffer the new offset is
  \<open>(stride / lanes) * var + offset'\<close>, where \<open>offset'\<close> is the rewritten old offset and
  \<open>lanes\<close> the lane count of the type of the first argument; the extent argument is
  rewritten too, the other three arguments are unchanged. The stride that the handler of
  \<open>Allocate\<close> records for the visit of the body (unless it injects the loop at the
  allocation and runs again) is the product of the original extents times the lane count
  of the allocation's type.
\<close>

theorem index_rewrite:
  "(\<forall>t b index predicate st e' st' stride.
      VTInjector_VisitExpr cfg (Load t b index predicate) st = Inr (e', st') \<longrightarrow>
      alloc_remap st b = Some stride \<longrightarrow>
      (\<exists>index' st1 predicate' st2.
         VTInjector_VisitExpr cfg index st = Inr (index', st1) \<and>
         VTInjector_VisitExpr cfg predicate st1 = Inr (predicate', st2) \<and>
         e' = Load t b (Add index' (Mul (Variable (vt_var cfg)) stride)) predicate')) \<and>
   (\<forall>b val index predicate st s' st' stride.
      VTInjector_VisitStmt_op subst cfg (Store b val index predicate) st = Inr (s', st') \<longrightarrow>
      alloc_remap st b = Some stride \<longrightarrow>
      (\<exists>val' st1 index' st2 predicate' st3.
         VTInjector_VisitExpr cfg val st = Inr (val', st1) \<and>
         VTInjector_VisitExpr cfg index st1 = Inr (index', st2) \<and>
         VTInjector_VisitExpr cfg predicate st2 = Inr (predicate', st3) \<and>
         s' = Store b val' (Add index' (Mul (Variable (vt_var cfg)) stride)) predicate')) \<and>
   (\<forall>t name a0 b a2 a3 a4 ct st e' st' stride.
      VTInjector_VisitExpr cfg (Call t name [a0, Variable b, a2, a3, a4] ct) st = Inr (e', st') \<longrightarrow>
      is_intrinsic (Call t name [a0, Variable b, a2, a3, a4] ct) tvm_access_ptr \<longrightarrow>
      alloc_remap st b = Some stride \<longrightarrow>
      (\<exists>dt offset' st1 extent' ot.
         dtype_of a0 = Some dt \<and>
         VTInjector_VisitExpr cfg a2 (st\<lparr>visit_touched_var := True\<rparr>) = Inr (offset', st1) \<and>
         VTInjector_VisitExpr cfg a3 st1 = Inr (extent', st') \<and>
         dtype_of offset' = Some ot \<and>
         e' = Call t name
                [a0, Variable b,
                 Add (Mul (Div stride (IntImm ot (lanes dt))) (Variable (vt_var cfg))) offset',
                 extent', a4] ct)) \<and>
   (\<forall>b t es c body ne ff st r st'.
      VTInjector_VisitStmt_op subst cfg (Allocate b t es c body ne ff) st = Inr (r, st') \<longrightarrow>
      (b \<in> touched_var cfg \<or> \<not> allow_share cfg) \<longrightarrow>
      (\<exists>st1. \<not> vt_loop_injected st \<and>
         InjectVTLoop subst cfg (Allocate b t es c body ne ff) True st1 = Inr (r, st')) \<or>
      (\<exists>st3 body' e0 rest pt.
         es = e0 # rest \<and> dtype_of e0 = Some pt \<and>
         alloc_remap st3 b = Some (Mul (foldl Mul e0 rest) (IntImm pt (lanes t))) \<and>
         VTInjector_VisitStmt subst cfg body st3 = Inr (body', st')))"
proof (intro conjI allI impI)
  fix t b index predicate st e' st' stride
  assume v: "VTInjector_VisitExpr cfg (Load t b index predicate) st = Inr (e', st')"
    and m: "alloc_remap st b = Some stride"
  from VisitExpr_Load_inv[OF v] obtain index' st1 predicate' st2 where
    a: "VTInjector_VisitExpr cfg index st = Inr (index', st1)" and
    b: "VTInjector_VisitExpr cfg predicate st1 = Inr (predicate', st2)" and
    st': "st' = (if b \<in> touched_var cfg then st2\<lparr>visit_touched_var := True\<rparr> else st2)" and
    e': "e' = (case alloc_remap st2 b of
             Some alloc_extent \<Rightarrow> Load t b (RewriteIndex cfg index' alloc_extent) predicate'
           | None \<Rightarrow> Load t b index' predicate')" by blast
  from VTInjector_VisitExpr_injected[OF a] VTInjector_VisitExpr_injected[OF b] m
  have "alloc_remap st2 b = Some stride" by simp
  with e' have "e' = Load t b (Add index' (Mul (Variable (vt_var cfg)) stride)) predicate'"
    by (simp add: RewriteIndex_def)
  with a b show "\<exists>index' st1 predicate' st2.
         VTInjector_VisitExpr cfg index st = Inr (index', st1) \<and>
         VTInjector_VisitExpr cfg predicate st1 = Inr (predicate', st2) \<and>
         e' = Load t b (Add index' (Mul (Variable (vt_var cfg)) stride)) predicate'" by blast
next
  fix b val index predicate st s' st' stride
  assume v: "VTInjector_VisitStmt_op subst cfg (Store b val index predicate) st = Inr (s', st')"
    and m: "alloc_remap st b = Some stride"
  from op_Store_inv[OF v] obtain val' st1 index' st2 predicate' st3 where
    a: "VTInjector_VisitExpr cfg val st = Inr (val', st1)" and
    b: "VTInjector_VisitExpr cfg index st1 = Inr (index', st2)" and
    c: "VTInjector_VisitExpr cfg predicate st2 = Inr (predicate', st3)" and
    st': "st' = (if b \<in> touched_var cfg then st3\<lparr>visit_touched_var := True\<rparr> else st3)
             \<lparr>trigger_base_inject := \<not> allow_share cfg\<rparr>" and
    s': "s' = (case alloc_remap st3 b of
             Some alloc_extent \<Rightarrow> Store b val' (RewriteIndex cfg index' alloc_extent) predicate'
           | None \<Rightarrow> Store b val' index' predicate')" by blast
  from VTInjector_VisitExpr_injected[OF a] VTInjector_VisitExpr_injected[OF b]
    VTInjector_VisitExpr_injected[OF c] m
  have "alloc_remap st3 b = Some stride" by simp
  with s' have "s' = Store b val' (Add index' (Mul (Variable (vt_var cfg)) stride)) predicate'"
    by (simp add: RewriteIndex_def)
  with a b c show "\<exists>val' st1 index' st2 predicate' st3.
         VTInjector_VisitExpr cfg val st = Inr (val', st1) \<and>
         VTInjector_VisitExpr cfg index st1 = Inr (index', st2) \<and>
         VTInjector_VisitExpr cfg predicate st2 = Inr (predicate', st3) \<and>
         s' = Store b val' (Add index' (Mul (Variable (vt_var cfg)) stride)) predicate'" by blast
next
  fix t name a0 b a2 a3 a4 ct st e' st' stride
  assume v: "VTInjector_VisitExpr cfg (Call t name [a0, Variable b, a2, a3, a4] ct) st = Inr (e', st')"
    and i: "is_intrinsic (Call t name [a0, Variable b, a2, a3, a4] ct) tvm_access_ptr"
    and m: "alloc_remap st b = Some stride"
  from VisitExpr_Call_access_ptr_error[OF i v] obtain dt where dt: "dtype_of a0 = Some dt"
    by auto
  have look: "(case Variable b of Variable buffer \<Rightarrow> alloc_remap st buffer | _ \<Rightarrow> None) = Some stride"
    using m by simp
  from v VisitExpr_Call_access_ptr_remapped[OF i refl dt look, of cfg]
  obtain offset' st1 extent' ot where
    "VTInjector_VisitExpr cfg a2 (st\<lparr>visit_touched_var := True\<rparr>) = Inr (offset', st1)"
    "VTInjector_VisitExpr cfg a3 st1 = Inr (extent', st')"
    "dtype_of offset' = Some ot"
    "e' = Call t name [a0, Variable b, access_ptr_offset cfg stride dt ot offset', extent', a4] ct"
    by (auto split: sum.splits prod.splits option.splits)
  with dt show "\<exists>dt offset' st1 extent' ot.
         dtype_of a0 = Some dt \<and>
         VTInjector_VisitExpr cfg a2 (st\<lparr>visit_touched_var := True\<rparr>) = Inr (offset', st1) \<and>
         VTInjector_VisitExpr cfg a3 st1 = Inr (extent', st') \<and>
         dtype_of offset' = Some ot \<and>
         e' = Call t name
                [a0, Variable b,
                 Add (Mul (Div stride (IntImm ot (lanes dt))) (Variable (vt_var cfg))) offset',
                 extent', a4] ct"
    by (auto simp: access_ptr_offset_def make_const_def Let_def)
next
  fix b t es c body ne ff st r st'
  assume v: "VTInjector_VisitStmt_op subst cfg (Allocate b t es c body ne ff) st = Inr (r, st')"
    and ex: "b \<in> touched_var cfg \<or> \<not> allow_share cfg"
  from v show "(\<exists>st1. \<not> vt_loop_injected st \<and>
         InjectVTLoop subst cfg (Allocate b t es c body ne ff) True st1 = Inr (r, st')) \<or>
      (\<exists>st3 body' e0 rest pt.
         es = e0 # rest \<and> dtype_of e0 = Some pt \<and>
         alloc_remap st3 b = Some (Mul (foldl Mul e0 rest) (IntImm pt (lanes t))) \<and>
         VTInjector_VisitStmt subst cfg body st3 = Inr (body', st'))"
  proof (cases rule: op_Allocate_cases)
    case (inject st1)
    then show ?thesis by blast
  next
    case (rebuild c' st1 es' st2 body')
    from rebuild(4)[OF ex] obtain stride where s: "alloc_stride es t = Inr stride" by blast
    from alloc_stride_product[OF s] obtain e0 rest pt where
      p: "es = e0 # rest" "dtype_of e0 = Some pt"
         "stride = Mul (foldl Mul e0 rest) (IntImm pt (lanes t))" by blast
    let ?st3 = "st2\<lparr>visit_touched_var := False, alloc_remap := (alloc_remap st2)(b \<mapsto> stride)\<rparr>"
    from rebuild(3) ex s have "VTInjector_VisitStmt subst cfg body ?st3 = Inr (body', st')" by simp
    moreover have "alloc_remap ?st3 b = Some (Mul (foldl Mul e0 rest) (IntImm pt (lanes t)))"
      using p(3) by simp
    ultimately show ?thesis using p(1,2) by blast
  qed
qed

definition ex_ptr :: expr where
  "ex_ptr = Call DT_Handle tvm_access_ptr
      [Call ex_f32 ''type_annotation'' [] PureIntrinsic, Variable ex_B, IntImm (DT_Int 32) 0,
       ex_ctx, IntImm (DT_Int 32) 1] Intrinsic"

theorem index_rewrite_witness:
  "VTInjector_VisitExpr ex_cfg_ns (Load ex_f32 ex_B (Variable ex_x) ex_true) ex_st_B =
     Inr (Load ex_f32 ex_B
            (Add (Variable ex_x)
               (Mul (Variable ex_vt) (Mul (IntImm (DT_Int 32) 4) (IntImm (DT_Int 32) 1))))
            ex_true, ex_st_B) \<and>
   alloc_remap ex_st_B ex_B = Some (Mul (IntImm (DT_Int 32) 4) (IntImm (DT_Int 32) 1)) \<and>
   VTInjector_VisitExpr ex_cfg_ns
     (Call DT_Handle tvm_access_ptr
        [Call ex_f32 ''type_annotation'' [] PureIntrinsic, Variable ex_B, Variable ex_x,
         IntImm (DT_Int 32) 4, IntImm (DT_Int 32) 1] Intrinsic) ex_st_B =
     Inr (Call DT_Handle tvm_access_ptr
            [Call ex_f32 ''type_annotation'' [] PureIntrinsic, Variable ex_B,
             Add (Mul (Div (Mul (IntImm (DT_Int 32) 4) (IntImm (DT_Int 32) 1)) (IntImm (DT_Int 32) 1))
                      (Variable ex_vt))
                 (Variable ex_x),
             IntImm (DT_Int 32) 4, IntImm (DT_Int 32) 1] Intrinsic,
          ex_st_B\<lparr>visit_touched_var := True\<rparr>)"
  using index_rewrite [of ex_cfg_ns Substitute]
  by (simp add: ex_defs vt_eval vt_expr_eval)

text \<open>The claim as stated fails: the extent argument of a \<^verbatim>\<open>tvm_access_ptr\<close> call on a
  remapped buffer is rewritten like every other expression. In a region that is not
  shareable, the extent \<^verbatim>\<open>tvm_context_id()\<close> becomes the thread variable; in the output of
  the pass it is the thread constant of each unrolled copy.\<close>

theorem index_rewrite_counterexample:
  "VTInjector_VisitExpr ex_cfg_ns ex_ptr ex_st_B =
     Inr (Call DT_Handle tvm_access_ptr
            [Call ex_f32 ''type_annotation'' [] PureIntrinsic, Variable ex_B,
             Add (Mul (Div (Mul (IntImm (DT_Int 32) 4) (IntImm (DT_Int 32) 1)) (IntImm (DT_Int 32) 1))
                      (Variable ex_vt))
                 (IntImm (DT_Int 32) 0),
             Variable ex_vt, IntImm (DT_Int 32) 1] Intrinsic,
          ex_st_B\<lparr>visit_touched_var := True\<rparr>) \<and>
   Variable ex_vt \<noteq> ex_ctx \<and>
   VTInjector_VisitStmt Substitute ex_cfg_ns
     (Allocate ex_B ex_f32 [IntImm (DT_Int 32) 4] ex_true (Evaluate ex_ptr) Undefined '''')
     VTInjector_init =
     Inr (Allocate ex_B ex_f32 [IntImm (DT_Int 32) 2, IntImm (DT_Int 32) 4] ex_true
            (Block
               (Evaluate
                  (Call DT_Handle tvm_access_ptr
                     [Call ex_f32 ''type_annotation'' [] PureIntrinsic, Variable ex_B,
                      Add (Mul (Div (Mul (IntImm (DT_Int 32) 4) (IntImm (DT_Int 32) 1))
                                    (IntImm (DT_Int 32) 1))
                               (IntImm (DT_Int 32) 0))
                          (IntImm (DT_Int 32) 0),
                      IntImm (DT_Int 32) 0, IntImm (DT_Int 32) 1] Intrinsic))
               (Evaluate
                  (Call DT_Handle tvm_access_ptr
                     [Call ex_f32 ''type_annotation'' [] PureIntrinsic, Variable ex_B,
                      Add (Mul (Div (Mul (IntImm (DT_Int 32) 4) (IntImm (DT_Int 32) 1))
                                    (IntImm (DT_Int 32) 1))
                               (IntImm (DT_Int 32) 1))
                          (IntImm (DT_Int 32) 0),
                      IntImm (DT_Int 32) 1, IntImm (DT_Int 32) 1] Intrinsic)))
            Undefined '''', ex_st_B)"
  by (simp add: ex_ptr_def ex_defs vt_eval vt_expr_eval)

section \<open>Virtual threads: the touched set is a least fixed point\<close>

text \<open>The edges that the walk recorded, and closure of a set under them.\<close>

definition affect_edges :: "(var \<times> var list) list \<Rightarrow> (var \<times> var) set" where
  "affect_edges m = {(x, y). y \<in> set (affect_get m x)}"

definition closed_under :: "(var \<times> var list) list \<Rightarrow> var set \<Rightarrow> bool" where
  "closed_under m S = (\<forall>x \<in> S. set (affect_get m x) \<subseteq> S)"

lemma closed_under_reach:
  assumes "closed_under m S"
  shows "(affect_edges m)\<^sup>* `` S = S"
proof
  show "(affect_edges m)\<^sup>* `` S \<subseteq> S"
  proof
    fix y assume "y \<in> (affect_edges m)\<^sup>* `` S"
    then obtain x where x: "x \<in> S" and r: "(x, y) \<in> (affect_edges m)\<^sup>*" by auto
    from r x show "y \<in> S"
    proof (induction rule: rtrancl_induct)
      case base
      then show ?case .
    next
      case (step y z)
      then have "y \<in> S" by simp
      with assms step.hyps(2) show ?case
        by (auto simp: closed_under_def affect_edges_def)
    qed
  qed
next
  show "S \<subseteq> (affect_edges m)\<^sup>* `` S" by auto
qed

lemma reach_closed: "closed_under m ((affect_edges m)\<^sup>* `` S)"
  unfolding closed_under_def affect_edges_def
  by (auto intro: rtrancl_into_rtrancl)

lemma reach_least:
  assumes "S \<subseteq> S'" "closed_under m S'"
  shows "(affect_edges m)\<^sup>* `` S \<subseteq> S'"
proof -
  have "(affect_edges m)\<^sup>* `` S \<subseteq> (affect_edges m)\<^sup>* `` S'"
    using assms(1) by (rule Image_mono[OF subset_refl])
  with closed_under_reach[OF assms(2)] show ?thesis by simp
qed

lemma reach_absorb:
  assumes "v \<in> S"
  shows "(affect_edges m)\<^sup>* `` (S \<union> set (affect_get m v)) = (affect_edges m)\<^sup>* `` S"
proof
  show "(affect_edges m)\<^sup>* `` (S \<union> set (affect_get m v)) \<subseteq> (affect_edges m)\<^sup>* `` S"
  proof
    fix y assume "y \<in> (affect_edges m)\<^sup>* `` (S \<union> set (affect_get m v))"
    then obtain x where x: "x \<in> S \<union> set (affect_get m v)"
      and r: "(x, y) \<in> (affect_edges m)\<^sup>*" by auto
    show "y \<in> (affect_edges m)\<^sup>* `` S"
    proof (cases "x \<in> S")
      case True
      with r show ?thesis by auto
    next
      case False
      with x have "(v, x) \<in> affect_edges m" by (simp add: affect_edges_def)
      from this r have "(v, y) \<in> (affect_edges m)\<^sup>*" by (rule converse_rtrancl_into_rtrancl)
      with assms show ?thesis by auto
    qed
  qed
next
  show "(affect_edges m)\<^sup>* `` S \<subseteq> (affect_edges m)\<^sup>* `` (S \<union> set (affect_get m v))"
    by (rule Image_mono) auto
qed

lemma TouchedVar_inner_pending:
  "TouchedVar_inner rs (p, t) = (p', t') \<Longrightarrow> set p' = set p \<union> (set rs - set t)"
  by (induction rs arbitrary: p t) (auto split: if_splits)

lemma TouchedVar_inner_distinct:
  "TouchedVar_inner rs (p, t) = (p', t') \<Longrightarrow> distinct t \<Longrightarrow> distinct t'"
  by (induction rs arbitrary: p t) (auto split: if_splits)

text \<open>The worklist invariant: every pending variable is touched, and every touched
  variable that is not pending has all its successors touched.\<close>

lemma TouchedVar_loop_reach:
  "set pending \<subseteq> set touched \<Longrightarrow>
   (\<forall>x \<in> set touched - set pending. set (affect_get affect x) \<subseteq> set touched) \<Longrightarrow>
   set (TouchedVar_loop affect pending touched) = (affect_edges affect)\<^sup>* `` set touched"
proof (induction affect pending touched rule: TouchedVar_loop.induct)
  case (1 affect touched)
  then have "closed_under affect (set touched)" by (simp add: closed_under_def)
  from closed_under_reach[OF this] show ?case by (simp add: TouchedVar_loop.simps)
next
  case (2 affect v pending touched)
  obtain p' t' where inner:
    "TouchedVar_inner (affect_get affect v) (pending, touched) = (p', t')"
    by (cases "TouchedVar_inner (affect_get affect v) (pending, touched)")
  note t' = TouchedVar_inner_touched[OF inner]
  note p' = TouchedVar_inner_pending[OF inner]
  from "2.prems"(1) have vt: "v \<in> set touched" and pt: "set pending \<subseteq> set touched" by simp_all
  have sub: "set p' \<subseteq> set t'" using p' t' pt by auto
  have inv: "\<forall>x \<in> set t' - set p'. set (affect_get affect x) \<subseteq> set t'"
  proof
    fix x assume x: "x \<in> set t' - set p'"
    show "set (affect_get affect x) \<subseteq> set t'"
    proof (cases "x = v")
      case True
      then show ?thesis using t' by auto
    next
      case False
      from x p' t' have "x \<in> set touched" "x \<notin> set pending" by auto
      with False have "x \<in> set touched - set (v # pending)" by simp
      with "2.prems"(2) have "set (affect_get affect x) \<subseteq> set touched" by blast
      with t' show ?thesis by auto
    qed
  qed
  from "2.IH"[OF inner[symmetric] sub inv]
  have "set (TouchedVar_loop affect p' t') = (affect_edges affect)\<^sup>* `` set t'" .
  also have "\<dots> = (affect_edges affect)\<^sup>* `` set touched"
    using reach_absorb[OF vt, of affect] t' by simp
  finally show ?case using inner by (simp add: TouchedVar_loop.simps)
qed

lemma TouchedVar_loop_distinct:
  "distinct touched \<Longrightarrow> distinct (TouchedVar_loop affect pending touched)"
proof (induction affect pending touched rule: TouchedVar_loop.induct)
  case (1 affect touched)
  then show ?case by (simp add: TouchedVar_loop.simps)
next
  case (2 affect v pending touched)
  obtain p' t' where inner:
    "TouchedVar_inner (affect_get affect v) (pending, touched) = (p', t')"
    by (cases "TouchedVar_inner (affect_get affect v) (pending, touched)")
  from TouchedVar_inner_distinct[OF inner "2.prems"] have "distinct t'" .
  from "2.IH"[OF inner[symmetric] this] inner show ?case
    by (simp add: TouchedVar_loop.simps)
qed

text \<open>The statement walk only ever adds to the touched set, and adds no variable twice.\<close>

definition touched_grows :: "vta_state \<Rightarrow> vta_state \<Rightarrow> bool" where
  "touched_grows st st' =
     (set (vta_touched st) \<subseteq> set (vta_touched st') \<and>
      (distinct (vta_touched st) \<longrightarrow> distinct (vta_touched st')))"

lemma touched_grows_refl: "touched_grows st st"
  by (simp add: touched_grows_def)

lemma touched_grows_trans:
  "touched_grows st st1 \<Longrightarrow> touched_grows st1 st2 \<Longrightarrow> touched_grows st st2"
  by (auto simp: touched_grows_def)

lemma touched_grows_Record: "touched_grows st (Record_touch v tc st)"
  by (auto simp: touched_grows_def Record_touch_def)

lemma touched_grows_Record_fold:
  "touched_grows st (foldl (\<lambda>s v. Record_touch v tc s) st vs)"
proof (induction vs arbitrary: st)
  case Nil
  then show ?case by (simp add: touched_grows_refl)
next
  case (Cons v vs)
  have "touched_grows st (Record_touch v tc st)" by (rule touched_grows_Record)
  moreover have "touched_grows (Record_touch v tc st)
                   (foldl (\<lambda>s v. Record_touch v tc s) (Record_touch v tc st) vs)"
    by (rule Cons.IH)
  ultimately show ?case by (auto intro: touched_grows_trans)
qed

lemma VarTouchedAnalysis_grows:
  "VarTouchedAnalysis_VisitStmt s st = Inr st' \<Longrightarrow> touched_grows st st'"
proof (induction s arbitrary: st st')
  case (LetStmt v val body)
  from LetStmt.prems obtain tc where
    "VarTouchedAnalysis_VisitStmt body (Record_touch v tc st) = Inr st'"
    by (auto split: sum.splits)
  from LetStmt.IH[OF this] touched_grows_Record[of st v tc] show ?case
    by (blast intro: touched_grows_trans)
next
  case (AttrStmt node key val body)
  then show ?case by simp
next
  case (AssertStmt c msg body)
  then show ?case by simp
next
  case (Store b val index predicate)
  from Store.prems obtain tc where "st' = Record_touch b tc st"
    by (auto split: sum.splits)
  then show ?case by (simp add: touched_grows_Record)
next
  case (Allocate b t es c body ne ff)
  from Allocate.prems obtain tc where
    "VarTouchedAnalysis_VisitStmt body (Record_touch b tc st) = Inr st'"
    by (auto split: sum.splits if_splits)
  from Allocate.IH[OF this] touched_grows_Record[of st b tc] show ?case
    by (blast intro: touched_grows_trans)
next
  case (For v mn ext ft dev body)
  from For.prems obtain tc where
    "VarTouchedAnalysis_VisitStmt body (Record_touch v tc st) = Inr st'"
    by (auto split: sum.splits)
  from For.IH[OF this] touched_grows_Record[of st v tc] show ?case
    by (blast intro: touched_grows_trans)
next
  case (IfThenElse c t e)
  from IfThenElse.prems obtain st1 where
    a: "VarTouchedAnalysis_VisitStmt t st = Inr st1"
    by (auto split: sum.splits)
  note g1 = IfThenElse.IH(1)[OF a]
  show ?case
  proof (cases e)
    case None
    with IfThenElse.prems a g1 show ?thesis by simp
  next
    case (Some x)
    with IfThenElse.prems a have b: "VarTouchedAnalysis_VisitStmt x st1 = Inr st'" by simp
    from IfThenElse.IH(2)[of x, OF _ b] Some have "touched_grows st1 st'" by simp
    with g1 show ?thesis by (blast intro: touched_grows_trans)
  qed
next
  case (Block first rest)
  from Block.prems obtain st1 where
    a: "VarTouchedAnalysis_VisitStmt first st = Inr st1" and
    b: "VarTouchedAnalysis_VisitStmt rest st1 = Inr st'"
    by (auto split: sum.splits)
  from Block.IH(1)[OF a] Block.IH(2)[OF b] show ?case by (blast intro: touched_grows_trans)
next
  case (Evaluate e)
  from Evaluate.prems obtain tc where
    "st' = foldl (\<lambda>s v. Record_touch v tc s) st (write_vars tc)"
    by (auto split: sum.splits)
  then show ?case by (simp add: touched_grows_Record_fold)
qed

text \<open>
  Claim C9, as the code has it. \<open>TouchedVar\<close> is a total function: the worklist loop is
  defined with its termination proof, whose measure counts the variables not yet inserted,
  so whenever the statement walk does not fail a set is returned. The seeds of the
  worklist are the variables that are touched when the walk ends: the given variable and
  every variable that \<^verbatim>\<open>Record\<close> inserted directly (for those no edge is recorded). The set
  returned is the set of the variables reachable from the seeds along the recorded edges:
  it contains the seeds, is closed under the recorded edges, and is the least such set.
  The list of touched variables only grows and never holds a variable twice.
\<close>

theorem TouchedVar_least_fixed_point:
  assumes "VarTouchedAnalysis_VisitStmt s \<lparr>vta_touched = [v], vta_affect = []\<rparr> = Inr st"
  shows "\<exists>S. TouchedVar s v = Inr S \<and>
           S = set (TouchedVar_loop (vta_affect st) (rev (vta_touched st)) (vta_touched st)) \<and>
           distinct (TouchedVar_loop (vta_affect st) (rev (vta_touched st)) (vta_touched st)) \<and>
           v \<in> set (vta_touched st) \<and>
           S = (affect_edges (vta_affect st))\<^sup>* `` set (vta_touched st) \<and>
           set (vta_touched st) \<subseteq> S \<and> closed_under (vta_affect st) S \<and>
           (\<forall>S'. set (vta_touched st) \<subseteq> S' \<and> closed_under (vta_affect st) S' \<longrightarrow> S \<subseteq> S')"
proof -
  let ?S = "set (TouchedVar_loop (vta_affect st) (rev (vta_touched st)) (vta_touched st))"
  have tv: "TouchedVar s v = Inr ?S" using assms by (simp add: TouchedVar_def)
  from VarTouchedAnalysis_grows[OF assms] have v: "v \<in> set (vta_touched st)"
    and d: "distinct (vta_touched st)" by (simp_all add: touched_grows_def)
  have reach: "?S = (affect_edges (vta_affect st))\<^sup>* `` set (vta_touched st)"
    by (rule TouchedVar_loop_reach) simp_all
  have "set (vta_touched st) \<subseteq> ?S" unfolding reach by auto
  moreover have "closed_under (vta_affect st) ?S" unfolding reach by (rule reach_closed)
  moreover have "\<forall>S'. set (vta_touched st) \<subseteq> S' \<and> closed_under (vta_affect st) S' \<longrightarrow> ?S \<subseteq> S'"
    unfolding reach by (blast intro: reach_least[THEN subsetD])
  moreover have "distinct (TouchedVar_loop (vta_affect st) (rev (vta_touched st)) (vta_touched st))"
    using d by (rule TouchedVar_loop_distinct)
  ultimately show ?thesis using tv v reach by blast
qed

text \<open>An example with one recorded edge: \<open>y\<close> is defined from \<open>x\<close> before \<open>x\<close> is
  defined from the thread variable, so the walk records the edge from \<open>x\<close> to \<open>y\<close> and
  inserts \<open>x\<close> directly; the closure then adds \<open>y\<close>.\<close>

definition ex_y :: var where "ex_y = Var ''y'' (DT_Int 32) 6"

definition ex_chain :: stmt where
  "ex_chain =
     Block (LetStmt ex_y (Variable ex_x) (Evaluate (IntImm (DT_Int 32) 0)))
           (LetStmt ex_x (Variable ex_vt) (Evaluate (IntImm (DT_Int 32) 0)))"

text \<open>An example with no edge at all: a store of the thread variable into \<open>A\<close>.\<close>

definition ex_direct :: stmt where
  "ex_direct = Store ex_A (Variable ex_vt) (IntImm (DT_Int 32) 0) ex_true"

lemmas touch_eval = ExprTouched_init_def HandleUseVar_def HandleWriteVar_def Record_touch_def
  affect_get_def TouchedVar_loop.simps ex_vt_def ex_x_def ex_y_def ex_A_def
  ex_true_def DT_Int_def DT_Handle_def

theorem TouchedVar_least_fixed_point_witness:
  "VarTouchedAnalysis_VisitStmt ex_chain \<lparr>vta_touched = [ex_vt], vta_affect = []\<rparr> =
     Inr \<lparr>vta_touched = [ex_vt, ex_x], vta_affect = [(ex_x, [ex_y])]\<rparr> \<and>
   TouchedVar ex_chain ex_vt = Inr {ex_vt, ex_x, ex_y} \<and>
   (affect_edges [(ex_x, [ex_y])])\<^sup>* `` {ex_vt, ex_x} = {ex_vt, ex_x, ex_y} \<and>
   closed_under [(ex_x, [ex_y])] {ex_vt, ex_x, ex_y}"
proof -
  have walk: "VarTouchedAnalysis_VisitStmt ex_chain \<lparr>vta_touched = [ex_vt], vta_affect = []\<rparr> =
     Inr \<lparr>vta_touched = [ex_vt, ex_x], vta_affect = [(ex_x, [ex_y])]\<rparr>"
    by (simp add: ex_chain_def touch_eval)
  have loop: "set (TouchedVar_loop [(ex_x, [ex_y])] (rev [ex_vt, ex_x]) [ex_vt, ex_x]) =
     {ex_vt, ex_x, ex_y}"
    by (auto simp: touch_eval)
  from TouchedVar_least_fixed_point[OF walk] walk loop show ?thesis by auto
qed

text \<open>The set returned is not always the least closed set that contains the given
  variable alone: in \<open>ex_direct\<close> no edge is recorded, so the set that holds only the
  thread variable is closed, and yet \<open>A\<close> is returned as touched.\<close>

theorem TouchedVar_least_fixed_point_counterexample:
  "VarTouchedAnalysis_VisitStmt ex_direct \<lparr>vta_touched = [ex_vt], vta_affect = []\<rparr> =
     Inr \<lparr>vta_touched = [ex_vt, ex_A], vta_affect = []\<rparr> \<and>
   TouchedVar ex_direct ex_vt = Inr {ex_vt, ex_A} \<and>
   ex_vt \<in> {ex_vt} \<and> closed_under [] {ex_vt} \<and> \<not> {ex_vt, ex_A} \<subseteq> {ex_vt}"
  by (auto simp: TouchedVar_def ex_direct_def closed_under_def touch_eval)

end
